theory Spec2Isabelle
  imports Main
begin

section \<open>Resumable archive transfer (backend/backup.py)\<close>

text \<open>
  A shallow embedding of the backup and restore route handlers of
  \<^verbatim>\<open>src/stable/backend/backup.py\<close>. Strings and file contents are lists of 8-bit
  characters: the text of a request is taken to hold code points below 256 only. The
  file system is a map from the path string, as the code writes it, to the
  bytes stored there (no normalisation of paths, no links, and directories are not
  objects of their own: \<^verbatim>\<open>os.makedirs\<close> changes nothing that is observed here).
  The libraries the handlers call (\<^verbatim>\<open>zipfile\<close>, \<^verbatim>\<open>hashlib.md5\<close>) are parameters,
  collected in a record, and so are the clock and the fresh identifier. An operation on a
  file that is there succeeds: permissions, a full disk, a concurrent removal and the
  exhaustion of memory are not modelled. The limits of the interpreter that a request
  can reach are: \<^verbatim>\<open>int\<close> refuses a numeral of more than 4300 digits, and the length
  given to \<^verbatim>\<open>read\<close> must fit the machine word (a 64-bit build).
\<close>

subsection \<open>Python built-ins used by the handlers\<close>

type_synonym bytes = string
type_synonym path = string

datatype py_exception =
    ValueError string
  | IndexError
  | KeyError string
  | FileNotFoundError path
  | OSError
  | OverflowError
  | BadZipFile
  | LibraryError string

text \<open>\<^verbatim>\<open>int(s)\<close> on a string: surrounding whitespace is dropped, one sign is allowed, then
  decimal digits, with single underscores between digits. A numeral of more than
  \<^verbatim>\<open>sys.int_info.default_max_str_digits\<close> digits is refused; leading zeros count,
  underscores, the sign and the whitespace do not. \<open>None\<close> is \<^verbatim>\<open>ValueError\<close>.\<close>

definition int_max_str_digits :: int where
  "int_max_str_digits = 4300"

definition is_space :: "char \<Rightarrow> bool" where
  "is_space c = ((of_char c :: nat) \<in> {9, 10, 11, 12, 13, 32, 133, 160})"

definition is_digit :: "char \<Rightarrow> bool" where
  "is_digit c = (48 \<le> (of_char c :: nat) \<and> (of_char c :: nat) \<le> 57)"

definition digit_val :: "char \<Rightarrow> nat" where
  "digit_val c = of_char c - 48"

definition strip :: "string \<Rightarrow> string" where
  "strip s = rev (dropWhile is_space (rev (dropWhile is_space s)))"

fun more_digits :: "nat \<Rightarrow> string \<Rightarrow> nat option" where
  "more_digits acc [] = Some acc"
| "more_digits acc [c] = (if is_digit c then Some (10 * acc + digit_val c) else None)"
| "more_digits acc (c # d # r) =
     (if is_digit c then more_digits (10 * acc + digit_val c) (d # r)
      else if c = CHR ''_'' \<and> is_digit d then more_digits (10 * acc + digit_val d) r
      else None)"

definition unsigned_int :: "string \<Rightarrow> nat option" where
  "unsigned_int s =
     (if int_max_str_digits < int (length (filter is_digit s)) then None
      else (case s of
              [] \<Rightarrow> None
            | c # r \<Rightarrow> if is_digit c then more_digits (digit_val c) r else None))"

definition py_int :: "string \<Rightarrow> int option" where
  "py_int s =
     (case strip s of
        [] \<Rightarrow> None
      | c # r \<Rightarrow>
          if c = CHR ''-'' then map_option (\<lambda>n. - int n) (unsigned_int r)
          else if c = CHR ''+'' then map_option int (unsigned_int r)
          else map_option int (unsigned_int (c # r)))"

text \<open>\<^verbatim>\<open>str(i)\<close> of an integer, as the f-strings render it. The integers that the
  handlers print are chunk numbers that \<^verbatim>\<open>int\<close> has read, sizes of files and offsets
  below the size of a file: none has more than 4300 digits, the length at which
  \<^verbatim>\<open>str\<close> would raise.\<close>

definition digit_char :: "nat \<Rightarrow> char" where
  "digit_char d = char_of (48 + d)"

fun show_nat :: "nat \<Rightarrow> string" where
  "show_nat n = (if n < 10 then [digit_char n] else show_nat (n div 10) @ [digit_char (n mod 10)])"

declare show_nat.simps [simp del]

definition show_int :: "int \<Rightarrow> string" where
  "show_int i = (if i < 0 then CHR ''-'' # show_nat (nat (- i)) else show_nat (nat i))"

text \<open>\<^verbatim>\<open>s.split('-')\<close> and \<^verbatim>\<open>s.replace('bytes=', '')\<close>.\<close>

fun split_on :: "char \<Rightarrow> string \<Rightarrow> string list" where
  "split_on sep [] = [[]]"
| "split_on sep (c # cs) =
     (if c = sep then [] # split_on sep cs
      else (case split_on sep cs of
              [] \<Rightarrow> [[c]]
            | t # ts \<Rightarrow> (c # t) # ts))"

function replace_bytes_eq :: "string \<Rightarrow> string" where
  "replace_bytes_eq [] = []"
| "replace_bytes_eq (c # cs) =
     (if take 6 (c # cs) = ''bytes='' then replace_bytes_eq (drop 6 (c # cs))
      else c # replace_bytes_eq cs)"
  by pat_completeness auto
termination
  by (relation "measure length") auto

text \<open>\<^verbatim>\<open>os.path.join(a, b)\<close> and \<^verbatim>\<open>os.path.basename(p)\<close> (POSIX).\<close>

definition path_join :: "path \<Rightarrow> path \<Rightarrow> path" where
  "path_join a b =
     (if b \<noteq> [] \<and> hd b = CHR ''/'' then b
      else if a = [] \<or> last a = CHR ''/'' then a @ b
      else a @ ''/'' @ b)"

definition basename :: "path \<Rightarrow> path" where
  "basename p = rev (takeWhile (\<lambda>c. c \<noteq> CHR ''/'') (rev p))"

text \<open>\<^verbatim>\<open>f.read(n)\<close> of a binary file opened for reading, at offset \<open>pos\<close>. The length is
  converted to a \<^verbatim>\<open>Py_ssize_t\<close>, and a buffer of \<open>n\<close> bytes, a \<^verbatim>\<open>bytes\<close> object with its
  header of 33 bytes, is allocated before the file is read: \<open>n\<close> below \<open>-2^63\<close> or
  above \<open>2^63 - 34\<close> raises \<^verbatim>\<open>OverflowError\<close>. Otherwise \<open>n = -1\<close> reads to the end of the
  file, a smaller \<open>n\<close> raises \<^verbatim>\<open>ValueError\<close>, and a read at or past the end returns the
  empty byte string.\<close>

definition PY_SSIZE_T_MAX :: int where
  "PY_SSIZE_T_MAX = 2 ^ 63 - 1"

definition file_read :: "bytes \<Rightarrow> nat \<Rightarrow> int \<Rightarrow> py_exception + bytes" where
  "file_read content pos n =
     (if n < - PY_SSIZE_T_MAX - 1 \<or> PY_SSIZE_T_MAX - 33 < n then Inl OverflowError
      else if n < - 1 then Inl (ValueError ''read length must be non-negative or -1'')
      else if n = - 1 then Inr (drop pos content)
      else Inr (take (nat n) (drop pos content)))"

subsection \<open>Module state\<close>

definition DATABASE_PATHS :: "path list" where
  "DATABASE_PATHS = [''database/books_data.db'', ''database/books_static.db'']"

datatype status = uploading | restoring | completed | failed

record operation =
  op_type :: string
  op_status :: status
  started_at :: int
  chunks_received :: int
  total_chunks :: int
  temp_dir :: path
  completed_at :: "int option"
  restored_files :: "path list option"
  op_error :: "py_exception option"

text \<open>Writes to the file system are recorded in a log, oldest first, so that the order of
  writes within one handler can be stated. \<open>reclaim\<close> holds the deferred clean-ups that
  the handlers start on threads, with their delay in seconds.\<close>

datatype fs_event = Write path | Copy path path

datatype deferred = Cleanup_file path nat | Cleanup_operation string nat

record world =
  files :: "path \<rightharpoonup> bytes"
  OPERATIONS :: "string \<rightharpoonup> operation"
  log :: "fs_event list"
  reclaim :: "deferred list"

datatype entry_read =
    Entry_data bytes
  | Entry_open_error py_exception
  | Entry_read_error bytes py_exception

text \<open>The libraries and the environment of one request. \<open>open_zip\<close> is
  \<^verbatim>\<open>ZipFile(path, 'r')\<close> followed by \<^verbatim>\<open>namelist()\<close>; \<open>read_entry\<close> is
  \<^verbatim>\<open>zip_ref.open(name)\<close> read to its end (an error while reading leaves the bytes read
  so far); \<open>zip_write\<close> is the archive \<^verbatim>\<open>ZipFile(path, 'w')\<close> holds once the named
  entries are written. \<open>timestamp\<close> is \<^verbatim>\<open>strftime("%Y%m%d_%H%M%S")\<close> of the clock,
  \<open>clock\<close> is \<^verbatim>\<open>time.time()\<close> and \<open>fresh_uuid\<close> is \<^verbatim>\<open>str(uuid.uuid4())\<close>.\<close>

record env =
  is_zipfile :: "bytes \<Rightarrow> bool"
  open_zip :: "bytes \<Rightarrow> py_exception + string list"
  read_entry :: "bytes \<Rightarrow> string \<Rightarrow> entry_read"
  zip_write :: "(string \<times> bytes) list \<Rightarrow> bytes"
  md5_hexdigest :: "bytes \<Rightarrow> string"
  timestamp :: string
  clock :: int
  fresh_uuid :: string

definition write_file :: "path \<Rightarrow> bytes \<Rightarrow> world \<Rightarrow> world" where
  "write_file p d w = w\<lparr>files := (files w)(p \<mapsto> d), log := log w @ [Write p]\<rparr>"

definition calculate_file_checksum :: "env \<Rightarrow> world \<Rightarrow> path \<Rightarrow> py_exception + string" where
  "calculate_file_checksum E w file_path =
     (case files w file_path of
        None \<Rightarrow> Inl (FileNotFoundError file_path)
      | Some content \<Rightarrow> Inr (md5_hexdigest E content))"

subsection \<open>GET /backup\<close>

datatype stream_end = Exhausted | Aborted py_exception

text \<open>The \<^verbatim>\<open>while remaining > 0\<close> loop of \<^verbatim>\<open>generate()\<close>: the blocks it yields, in order,
  and how it ends.\<close>

function generate_loop :: "bytes \<Rightarrow> nat \<Rightarrow> int \<Rightarrow> int \<Rightarrow> bytes list \<times> stream_end" where
  "generate_loop content pos chunk_size remaining =
     (if remaining > 0 then
        (case file_read content pos (min chunk_size remaining) of
           Inl e \<Rightarrow> ([], Aborted e)
         | Inr data \<Rightarrow>
             if data = [] then ([], Exhausted)
             else (case generate_loop content (pos + length data) chunk_size
                          (remaining - int (length data)) of
                     (blocks, fin) \<Rightarrow> (data # blocks, fin)))
      else ([], Exhausted))"
  by pat_completeness auto
termination
  by (relation "measure (\<lambda>(content, pos, chunk_size, remaining). nat remaining)") auto

declare generate_loop.simps [simp del]

definition generate :: "world \<Rightarrow> path \<Rightarrow> int \<Rightarrow> int \<Rightarrow> int \<Rightarrow> bytes list \<times> stream_end" where
  "generate w backup_path start content_length chunk_size =
     (case files w backup_path of
        None \<Rightarrow> ([], Aborted (FileNotFoundError backup_path))
      | Some content \<Rightarrow>
          if start < 0 then ([], Aborted OSError)
          else generate_loop content (nat start) chunk_size content_length)"

datatype error_text = Msg string | Msg_exc string py_exception

record stream_response =
  status_code :: nat
  headers :: "(string \<times> string) list"
  body :: "bytes list"
  body_end :: stream_end

datatype backup_reply = Json_error error_text nat | Stream stream_response

text \<open>Lines 64 to 71: the start and the end of the \<^verbatim>\<open>Range\<close> header.\<close>

definition parse_range :: "string \<Rightarrow> int \<Rightarrow> py_exception + int \<times> int" where
  "parse_range range_header file_size =
     (case split_on CHR ''-'' (replace_bytes_eq range_header) of
        [] \<Rightarrow> Inl IndexError
      | m0 # ms \<Rightarrow>
          (case (if m0 \<noteq> [] then py_int m0 else Some 0) of
             None \<Rightarrow> Inl (ValueError m0)
           | Some start \<Rightarrow>
               (case ms of
                  [] \<Rightarrow> Inl IndexError
                | m1 # _ \<Rightarrow>
                    (case (if m1 \<noteq> [] then py_int m1 else Some (file_size - 1)) of
                       None \<Rightarrow> Inl (ValueError m1)
                     | Some end \<Rightarrow> Inr (start, end)))))"

fun zip_entries :: "world \<Rightarrow> path list \<Rightarrow> py_exception + (string \<times> bytes) list" where
  "zip_entries w [] = Inr []"
| "zip_entries w (db_path # ps) =
     (case files w db_path of
        None \<Rightarrow> Inl (FileNotFoundError db_path)
      | Some content \<Rightarrow>
          (case zip_entries w ps of
             Inl e \<Rightarrow> Inl e
           | Inr es \<Rightarrow> Inr ((basename db_path, content) # es)))"

text \<open>Lines 73 to 121: the window is checked and clamped, and the response is built. The
  generator runs while the response is sent; the clean-up of the archive is started when
  it has run to its end.\<close>

definition serve :: "world \<Rightarrow> path \<Rightarrow> string \<Rightarrow> string \<Rightarrow> int \<Rightarrow> int \<Rightarrow> bool \<Rightarrow> int \<Rightarrow> int
    \<Rightarrow> backup_reply \<times> world" where
  "serve w backup_path backup_filename checksum file_size chunk_size ranged start end0 =
     (if start \<ge> file_size then (Json_error (Msg ''Range not satisfiable'') 416, w)
      else
        let end = (if end0 \<ge> file_size then file_size - 1 else end0);
            content_length = end - start + 1;
            (blocks, fin) = generate w backup_path start content_length chunk_size;
            hs = [(''Content-Disposition'', ''attachment; filename='' @ backup_filename),
                  (''Accept-Ranges'', ''bytes''),
                  (''Cache-Control'', ''no-cache''),
                  (''Content-Length'', show_int content_length),
                  (''X-Checksum'', checksum),
                  (''X-Total-Size'', show_int file_size)];
            hs' = (if ranged
                   then hs @ [(''Content-Range'',
                          ''bytes '' @ show_int start @ ''-'' @ show_int end @ ''/'' @ show_int file_size)]
                   else hs)
        in (Stream \<lparr>status_code = (if ranged then 206 else 200), headers = hs',
                     body = blocks, body_end = fin\<rparr>,
            (if fin = Exhausted then w\<lparr>reclaim := reclaim w @ [Cleanup_file backup_path 600]\<rparr>
             else w)))"

text \<open>Lines 57 and 58: \<^verbatim>\<open>request.args.get('chunk_size', default=1024*1024, type=int)\<close>. An
  argument that \<^verbatim>\<open>int\<close> rejects gives the default.\<close>

definition requested_chunk_size :: "string option \<Rightarrow> int" where
  "requested_chunk_size chunk_size_arg =
     (case chunk_size_arg of
        None \<Rightarrow> 1024 * 1024
      | Some s \<Rightarrow> (case py_int s of None \<Rightarrow> 1024 * 1024 | Some n \<Rightarrow> n))"

definition backup_database :: "env \<Rightarrow> string option \<Rightarrow> string option \<Rightarrow> world
    \<Rightarrow> backup_reply \<times> world" where
  "backup_database E chunk_size_arg range_header w =
     (case find (\<lambda>db_path. files w db_path = None) DATABASE_PATHS of
        Some db_path \<Rightarrow> (Json_error (Msg (''Database file '' @ db_path @ '' not found'')) 404, w)
      | None \<Rightarrow>
          let backup_filename = ''books_db_backup_'' @ timestamp E @ ''.zip'';
              backup_path = path_join ''temp_backups'' backup_filename
          in (case zip_entries w DATABASE_PATHS of
                Inl e \<Rightarrow> (Json_error (Msg_exc ''Backup failed: '' e) 500, w)
              | Inr es \<Rightarrow>
                  let archive = zip_write E es;
                      w1 = write_file backup_path archive w;
                      file_size = int (length archive);
                      checksum = md5_hexdigest E archive;
                      chunk_size = requested_chunk_size chunk_size_arg;
                      unranged = serve w1 backup_path backup_filename checksum file_size
                                   chunk_size False 0 (file_size - 1)
                  in (case range_header of
                        None \<Rightarrow> unranged
                      | Some h \<Rightarrow>
                          if h = [] then unranged
                          else (case parse_range h file_size of
                                  Inl e \<Rightarrow> (Json_error (Msg ''Invalid range header'') 400, w1)
                                | Inr (start, end) \<Rightarrow>
                                    serve w1 backup_path backup_filename checksum file_size
                                      chunk_size True start end))))"

text \<open>The bytes of a response body: the blocks of the stream, joined.\<close>

definition streamed :: "backup_reply \<Rightarrow> bytes" where
  "streamed reply = (case reply of Stream r \<Rightarrow> concat (body r) | Json_error _ _ \<Rightarrow> [])"

subsection \<open>POST /restore\<close>

datatype jvalue =
    JStr string
  | JInt int
  | JBool bool
  | JList "string list"
  | JExc string py_exception

text \<open>\<open>Reply\<close> is \<^verbatim>\<open>jsonify({...}), code\<close>; \<open>JExc prefix e\<close> is the f-string
  \<^verbatim>\<open>f"{prefix}{str(e)}"\<close>. \<open>Unhandled\<close> is an exception that leaves the handler.\<close>

datatype restore_reply =
    Reply "(string \<times> jvalue) list" nat
  | Reply_operation operation nat
  | Unhandled py_exception

record restore_form =
  form_chunk :: "string option"
  form_upload_id :: "string option"
  form_total_chunks :: "string option"
  form_checksum :: "string option"
  file_backup_file :: "(string \<times> bytes) option"

text \<open>\<^verbatim>\<open>OPERATIONS[k][field] = v\<close>, where the record is known to be there.\<close>

definition update_op :: "string \<Rightarrow> (operation \<Rightarrow> operation) \<Rightarrow> world \<Rightarrow> world" where
  "update_op k f w =
     (case OPERATIONS w k of
        None \<Rightarrow> w
      | Some r \<Rightarrow> w\<lparr>OPERATIONS := (OPERATIONS w)(k \<mapsto> f r)\<rparr>)"

text \<open>\<^verbatim>\<open>OPERATIONS[k]['status'] = 'failed'\<close> followed by \<^verbatim>\<open>return reply\<close>.\<close>

definition mark_failed :: "string \<Rightarrow> restore_reply \<Rightarrow> world \<Rightarrow> restore_reply \<times> world" where
  "mark_failed k reply w =
     (case OPERATIONS w k of
        None \<Rightarrow> (Unhandled (KeyError k), w)
      | Some r \<Rightarrow> (reply, w\<lparr>OPERATIONS := (OPERATIONS w)(k \<mapsto> r\<lparr>op_status := failed\<rparr>)\<rparr>))"

fun backup_loop :: "string \<Rightarrow> path list \<Rightarrow> world \<Rightarrow> world" where
  "backup_loop ts [] w = w"
| "backup_loop ts (db_path # ps) w =
     (case files w db_path of
        None \<Rightarrow> backup_loop ts ps w
      | Some content \<Rightarrow>
          let backup_path = db_path @ ''.'' @ ts @ ''.bak''
          in backup_loop ts ps
               (w\<lparr>files := (files w)(backup_path \<mapsto> content),
                  log := log w @ [Copy db_path backup_path]\<rparr>))"

definition backup_current_databases :: "env \<Rightarrow> world \<Rightarrow> world" where
  "backup_current_databases E w = backup_loop (timestamp E) DATABASE_PATHS w"

text \<open>Lines 337 to 343. The entry is opened before the destination, so a failure to open
  it leaves the destination alone; a failure while copying leaves it with the bytes
  copied so far.\<close>

fun extract_loop :: "env \<Rightarrow> bytes \<Rightarrow> string list \<Rightarrow> path list \<Rightarrow> path list \<Rightarrow> world
    \<Rightarrow> (py_exception + path list) \<times> world" where
  "extract_loop E archive file_list [] restored w = (Inr restored, w)"
| "extract_loop E archive file_list (db_path # ps) restored w =
     (let base_name = basename db_path
      in if base_name \<in> set file_list
         then (case read_entry E archive base_name of
                 Entry_open_error e \<Rightarrow> (Inl e, w)
               | Entry_read_error part e \<Rightarrow> (Inl e, write_file db_path part w)
               | Entry_data d \<Rightarrow>
                   extract_loop E archive file_list ps (restored @ [db_path])
                     (write_file db_path d w))
         else extract_loop E archive file_list ps restored w)"

text \<open>Lines 329 to 343: the \<^verbatim>\<open>with zipfile.ZipFile(zip_path, 'r')\<close> block.\<close>

definition extract_databases :: "env \<Rightarrow> path \<Rightarrow> world \<Rightarrow> (py_exception + path list) \<times> world" where
  "extract_databases E zip_path w =
     (case files w zip_path of
        None \<Rightarrow> (Inl (FileNotFoundError zip_path), w)
      | Some archive \<Rightarrow>
          (case open_zip E archive of
             Inl e \<Rightarrow> (Inl e, w)
           | Inr file_list \<Rightarrow> extract_loop E archive file_list DATABASE_PATHS [] w))"

definition perform_restore :: "env \<Rightarrow> path \<Rightarrow> string \<Rightarrow> world \<Rightarrow> restore_reply \<times> world" where
  "perform_restore E zip_path operation_id w =
     (case OPERATIONS w operation_id of
        None \<Rightarrow> (Unhandled (KeyError operation_id), w)
      | Some _ \<Rightarrow>
          let w1 = update_op operation_id (\<lambda>r. r\<lparr>op_status := restoring\<rparr>) w
          in if \<not> (case files w1 zip_path of None \<Rightarrow> False | Some c \<Rightarrow> is_zipfile E c)
             then mark_failed operation_id
                    (Reply [(''error'', JStr ''Invalid zip file''),
                            (''upload_id'', JStr operation_id)] 400) w1
             else
               (case extract_databases E zip_path (backup_current_databases E w1) of
                  (Inl e, w3) \<Rightarrow>
                    (Reply [(''error'', JExc ''Restore failed: '' e),
                            (''upload_id'', JStr operation_id)] 500,
                     update_op operation_id (\<lambda>r. r\<lparr>op_status := failed, op_error := Some e\<rparr>) w3)
                | (Inr restored, w3) \<Rightarrow>
                    if restored = []
                    then mark_failed operation_id
                           (Reply [(''error'', JStr ''No valid database files found in the backup''),
                                   (''upload_id'', JStr operation_id)] 400) w3
                    else
                      (Reply [(''success'', JBool True),
                              (''message'', JStr ''Database restore completed successfully''),
                              (''restored_files'', JList restored),
                              (''upload_id'', JStr operation_id)] 200,
                       (update_op operation_id
                          (\<lambda>r. r\<lparr>op_status := completed, completed_at := Some (clock E),
                                 restored_files := Some restored\<rparr>) w3)
                         \<lparr>reclaim := reclaim w3 @ [Cleanup_operation operation_id 3600]\<rparr>)))"

text \<open>Lines 239 to 244: \<^verbatim>\<open>combined.zip\<close> is opened for writing, and the chunk files are
  read and appended in index order. A chunk file that is not there raises
  \<^verbatim>\<open>FileNotFoundError\<close>; the combined file keeps what was written before.\<close>

definition append_file :: "path \<Rightarrow> bytes \<Rightarrow> world \<Rightarrow> world" where
  "append_file p d w =
     w\<lparr>files := (files w)(p \<mapsto> (case files w p of None \<Rightarrow> d | Some old \<Rightarrow> old @ d))\<rparr>"

definition chunk_name :: "int \<Rightarrow> string" where
  "chunk_name i = ''chunk_'' @ show_int i"

fun assemble_loop :: "path \<Rightarrow> path \<Rightarrow> nat list \<Rightarrow> world \<Rightarrow> py_exception option \<times> world" where
  "assemble_loop dir combined_file_path [] w = (None, w)"
| "assemble_loop dir combined_file_path (i # rest) w =
     (let chunk_path = path_join dir (chunk_name (int i))
      in case files w chunk_path of
           None \<Rightarrow> (Some (FileNotFoundError chunk_path), w)
         | Some c \<Rightarrow> assemble_loop dir combined_file_path rest (append_file combined_file_path c w))"

definition assemble :: "path \<Rightarrow> int \<Rightarrow> world \<Rightarrow> py_exception option \<times> world" where
  "assemble dir n w =
     (let combined_file_path = path_join dir ''combined.zip''
      in assemble_loop dir combined_file_path [0..<nat n]
           (write_file combined_file_path [] w))"

text \<open>Lines 246 to 261 and 277 to 291: the checksum is verified if one is provided, and
  the restore follows.\<close>

definition verify_and_restore :: "env \<Rightarrow> restore_form \<Rightarrow> string \<Rightarrow> path \<Rightarrow> world
    \<Rightarrow> (py_exception + restore_reply) \<times> world" where
  "verify_and_restore E req upload_id file_path w =
     (let proceed = (case perform_restore E file_path upload_id w of
                       (Unhandled e, w') \<Rightarrow> (Inl e, w')
                     | (reply, w') \<Rightarrow> (Inr reply, w'))
      in case form_checksum req of
           None \<Rightarrow> proceed
         | Some client_checksum \<Rightarrow>
             if client_checksum = [] then proceed
             else (case calculate_file_checksum E w file_path of
                     Inl e \<Rightarrow> (Inl e, w)
                   | Inr calculated_checksum \<Rightarrow>
                       if calculated_checksum \<noteq> client_checksum
                       then (case mark_failed upload_id
                                    (Reply [(''error'', JStr ''Checksum verification failed''),
                                            (''upload_id'', JStr upload_id),
                                            (''expected'', JStr client_checksum),
                                            (''calculated'', JStr calculated_checksum)] 400) w of
                               (Unhandled e, w') \<Rightarrow> (Inl e, w')
                             | (reply, w') \<Rightarrow> (Inr reply, w'))
                       else proceed))"

text \<open>Lines 216 to 291: the body of the \<^verbatim>\<open>try\<close> block.\<close>

definition restore_body :: "env \<Rightarrow> restore_form \<Rightarrow> string \<Rightarrow> world
    \<Rightarrow> (py_exception + restore_reply) \<times> world" where
  "restore_body E req upload_id w =
     (case file_backup_file req of
        None \<Rightarrow> (Inr (Reply [(''error'', JStr ''No backup file provided'')] 400), w)
      | Some (filename, data) \<Rightarrow>
          if filename = [] then (Inr (Reply [(''error'', JStr ''No backup file selected'')] 400), w)
          else
            (case form_chunk req of
               Some chunk \<Rightarrow>
                 (case py_int chunk of
                    None \<Rightarrow> (Inl (ValueError chunk), w)
                  | Some chunk_number \<Rightarrow>
                      (case OPERATIONS w upload_id of
                         None \<Rightarrow> (Inl (KeyError upload_id), w)
                       | Some r \<Rightarrow>
                           let chunk_path = path_join (temp_dir r) (chunk_name chunk_number);
                               w1 = write_file chunk_path data w;
                               w2 = update_op upload_id
                                      (\<lambda>r. r\<lparr>chunks_received := chunks_received r + 1\<rparr>) w1
                           in if chunks_received r + 1 \<ge> total_chunks r
                              then (case assemble (temp_dir r) (total_chunks r) w2 of
                                      (Some e, w3) \<Rightarrow> (Inl e, w3)
                                    | (None, w3) \<Rightarrow>
                                        verify_and_restore E req upload_id
                                          (path_join (temp_dir r) ''combined.zip'') w3)
                              else (Inr (Reply [(''success'', JBool True),
                                                (''upload_id'', JStr upload_id),
                                                (''message'', JStr (''Chunk '' @ show_int chunk_number
                                                                    @ '' received successfully'')),
                                                (''chunks_received'', JInt (chunks_received r + 1)),
                                                (''total_chunks'', JInt (total_chunks r))] 200), w2)))
             | None \<Rightarrow>
                 (case OPERATIONS w upload_id of
                    None \<Rightarrow> (Inl (KeyError upload_id), w)
                  | Some r \<Rightarrow>
                      let temp_path = path_join (temp_dir r) ''backup.zip''
                      in verify_and_restore E req upload_id temp_path
                           (write_file temp_path data w))))"

text \<open>The \<^verbatim>\<open>try\<close> block with its two handlers (lines 293 to 298).\<close>

definition restore_try :: "env \<Rightarrow> restore_form \<Rightarrow> string \<Rightarrow> world \<Rightarrow> restore_reply \<times> world" where
  "restore_try E req upload_id w =
     (case restore_body E req upload_id w of
        (Inr reply, w') \<Rightarrow> (reply, w')
      | (Inl BadZipFile, w') \<Rightarrow>
          mark_failed upload_id
            (Reply [(''error'', JStr ''Invalid zip file provided''),
                    (''upload_id'', JStr upload_id)] 400) w'
      | (Inl e, w') \<Rightarrow>
          mark_failed upload_id
            (Reply [(''error'', JExc ''Restore failed: '' e),
                    (''upload_id'', JStr upload_id)] 500) w')"

definition restore_database :: "env \<Rightarrow> restore_form \<Rightarrow> world \<Rightarrow> restore_reply \<times> world" where
  "restore_database E req w =
     (let upload_id = (case form_upload_id req of None \<Rightarrow> fresh_uuid E | Some u \<Rightarrow> u)
      in if form_chunk req = None \<or> form_chunk req = Some ''0''
         then (case (case form_total_chunks req of None \<Rightarrow> Some 1 | Some s \<Rightarrow> py_int s) of
                 None \<Rightarrow> (Unhandled (ValueError (case form_total_chunks req of None \<Rightarrow> [] | Some s \<Rightarrow> s)), w)
               | Some n \<Rightarrow>
                   restore_try E req upload_id
                     (w\<lparr>OPERATIONS := (OPERATIONS w)(upload_id \<mapsto>
                          \<lparr>op_type = ''restore'', op_status = uploading, started_at = clock E,
                           chunks_received = 0, total_chunks = n,
                           temp_dir = path_join ''temp_uploads'' upload_id,
                           completed_at = None, restored_files = None, op_error = None\<rparr>)\<rparr>))
         else if OPERATIONS w upload_id = None
              then (Reply [(''error'', JStr ''Upload session not found'')] 404, w)
              else restore_try E req upload_id w)"

subsection \<open>GET /operation/status and the deferred clean-up\<close>

definition operation_status :: "string \<Rightarrow> world \<Rightarrow> restore_reply \<times> world" where
  "operation_status upload_id w =
     (case OPERATIONS w upload_id of
        None \<Rightarrow> (Reply [(''error'', JStr ''Operation not found'')] 404, w)
      | Some r \<Rightarrow> (Reply_operation r 200, w))"

text \<open>\<^verbatim>\<open>shutil.rmtree(d)\<close>: every file below the directory goes. A path is below the
  directory if it starts with the directory's path as the handlers write it, and, like
  the other file operations here, the removal does not fail: the \<^verbatim>\<open>except\<close> clause of
  \<^verbatim>\<open>cleanup_operation_later\<close>, under which the record would stay, is not reached.\<close>

definition rmtree :: "path \<Rightarrow> world \<Rightarrow> world" where
  "rmtree d w =
     (let d' = (if last d = CHR ''/'' then d else d @ ''/'')
      in w\<lparr>files := (\<lambda>p. if take (length d') p = d' then None else files w p)\<rparr>)"

text \<open>The body of \<^verbatim>\<open>cleanup_operation_later\<close> once its delay has passed.\<close>

definition cleanup_operation_later :: "string \<Rightarrow> world \<Rightarrow> world" where
  "cleanup_operation_later operation_id w =
     (case OPERATIONS w operation_id of
        None \<Rightarrow> w
      | Some r \<Rightarrow>
          let w1 = (if temp_dir r \<noteq> [] then rmtree (temp_dir r) w else w)
          in w1\<lparr>OPERATIONS := (OPERATIONS w1)(operation_id := None)\<rparr>)"

definition cleanup_file_later :: "path \<Rightarrow> world \<Rightarrow> world" where
  "cleanup_file_later file_path w = w\<lparr>files := (files w)(file_path := None)\<rparr>"

subsection \<open>Sequences of requests, and notions used in the statements\<close>

text \<open>A sequence of restore requests, handled one after the other.\<close>

fun deliver :: "env \<Rightarrow> restore_form list \<Rightarrow> world \<Rightarrow> restore_reply list \<times> world" where
  "deliver E [] w = ([], w)"
| "deliver E (req # reqs) w =
     (case restore_database E req w of
        (reply, w') \<Rightarrow>
          (case deliver E reqs w' of (replies, w'') \<Rightarrow> (reply # replies, w'')))"

text \<open>The request that delivers chunk \<open>i\<close> of \<open>n\<close> of an upload whose chunks are
  \<open>d 0, ..., d (n - 1)\<close>, with the decimal numerals a client sends.\<close>

definition chunk_request :: "string \<Rightarrow> nat \<Rightarrow> string option \<Rightarrow> (nat \<Rightarrow> bytes) \<Rightarrow> nat \<Rightarrow> restore_form" where
  "chunk_request uid n ck d i =
     \<lparr>form_chunk = Some (show_nat i), form_upload_id = Some uid,
      form_total_chunks = Some (show_nat n), form_checksum = ck,
      file_backup_file = Some (''blob'', d i)\<rparr>"

text \<open>The \<^verbatim>\<open>Range\<close> header of a client that asks for the bytes \<open>start\<close> to \<open>end\<close>.\<close>

definition range_header :: "int \<Rightarrow> int \<Rightarrow> string" where
  "range_header start end = ''bytes='' @ show_int start @ ''-'' @ show_int end"

text \<open>Consecutive windows from offset \<open>a\<close> up to, not including, \<open>l\<close>.\<close>

fun tiles :: "int \<Rightarrow> (int \<times> int) list \<Rightarrow> int \<Rightarrow> bool" where
  "tiles a [] l = (a = l)"
| "tiles a ((s, e) # rs) l = (s = a \<and> s \<le> e \<and> e < l \<and> tiles (e + 1) rs l)"

text \<open>The number that a string of decimal digits denotes, continuing from \<open>acc\<close>.\<close>

definition dec_value :: "nat \<Rightarrow> string \<Rightarrow> nat" where
  "dec_value acc ds = foldl (\<lambda>a c. 10 * a + digit_val c) acc ds"

subsection \<open>A small codec and a small world, for evaluating the handlers\<close>

text \<open>The handlers are parametric in the archive codec and the digest. For evaluation on
  concrete requests, a container \<^verbatim>\<open>PK name:data| name:data| ...\<close> and the sum of the
  bytes, in decimal, stand in for them.\<close>

definition toy_entries :: "bytes \<Rightarrow> (string \<times> bytes) list" where
  "toy_entries archive =
     map (\<lambda>e. (takeWhile (\<lambda>c. c \<noteq> CHR '':'') e, drop 1 (dropWhile (\<lambda>c. c \<noteq> CHR '':'') e)))
       (filter (\<lambda>e. e \<noteq> []) (split_on CHR ''|'' (drop 2 archive)))"

definition toy_env :: env where
  "toy_env =
     \<lparr>is_zipfile = (\<lambda>b. take 2 b = ''PK''),
      open_zip = (\<lambda>b. if take 2 b = ''PK'' then Inr (map fst (toy_entries b)) else Inl BadZipFile),
      read_entry = (\<lambda>b name. case map_of (toy_entries b) name of
                                 None \<Rightarrow> Entry_open_error (KeyError name)
                               | Some d \<Rightarrow> Entry_data d),
      zip_write = (\<lambda>es. ''PK'' @ concat (map (\<lambda>(n, d). n @ '':'' @ d @ ''|'') es)),
      md5_hexdigest = (\<lambda>b. show_nat (sum_list (map of_char b))),
      timestamp = ''20240101_120000'',
      clock = 1704110400,
      fresh_uuid = ''6f1c0c1e-0000-4000-8000-000000000001''\<rparr>"

definition empty_world :: world where
  "empty_world = \<lparr>files = Map.empty, OPERATIONS = Map.empty, log = [], reclaim = []\<rparr>"

definition toy_world :: world where
  "toy_world =
     \<lparr>files = [''database/books_data.db'' \<mapsto> ''AAAA'', ''database/books_static.db'' \<mapsto> ''BB''],
      OPERATIONS = Map.empty, log = [], reclaim = []\<rparr>"

definition archive_world :: world where
  "archive_world = write_file ''temp_backups/a.zip'' ''abcdef'' empty_world"

text \<open>A registered single-shot operation whose upload is stored.\<close>

definition staged_operation :: operation where
  "staged_operation =
     \<lparr>op_type = ''restore'', op_status = uploading, started_at = 1704110400,
      chunks_received = 0, total_chunks = 1, temp_dir = ''temp_uploads/u'',
      completed_at = None, restored_files = None, op_error = None\<rparr>"

definition staged_world :: "bytes \<Rightarrow> world" where
  "staged_world archive =
     toy_world\<lparr>files := (files toy_world)(''temp_uploads/u/backup.zip'' \<mapsto> archive),
               OPERATIONS := [''u'' \<mapsto> staged_operation]\<rparr>"

text \<open>An operation of three chunks of which two are staged, and requests against it.\<close>

definition chunked_operation :: operation where
  "chunked_operation =
     \<lparr>op_type = ''restore'', op_status = uploading, started_at = 1704110400,
      chunks_received = 2, total_chunks = 3, temp_dir = ''temp_uploads/u'',
      completed_at = None, restored_files = None, op_error = None\<rparr>"

definition chunked_world :: world where
  "chunked_world =
     toy_world\<lparr>files := (files toy_world)(''temp_uploads/u/chunk_0'' \<mapsto> ''PKbooks_'',
                                             ''temp_uploads/u/chunk_1'' \<mapsto> ''data.db:''),
               OPERATIONS := [''u'' \<mapsto> chunked_operation]\<rparr>"

definition chunk_form :: "string \<Rightarrow> string option \<Rightarrow> bytes \<Rightarrow> restore_form" where
  "chunk_form ch ck data =
     \<lparr>form_chunk = Some ch, form_upload_id = Some ''u'', form_total_chunks = Some ''3'',
      form_checksum = ck, file_backup_file = Some (''blob'', data)\<rparr>"

definition single_form :: "string option \<Rightarrow> bytes \<Rightarrow> restore_form" where
  "single_form ck data =
     \<lparr>form_chunk = None, form_upload_id = Some ''u'', form_total_chunks = None,
      form_checksum = ck, file_backup_file = Some (''backup.zip'', data)\<rparr>"

definition registered_world :: world where
  "registered_world = toy_world\<lparr>OPERATIONS := [''u'' \<mapsto> staged_operation]\<rparr>"

text \<open>A world in which the operation has failed.\<close>

definition finished_world :: world where
  "finished_world = toy_world\<lparr>OPERATIONS := [''u'' \<mapsto> staged_operation\<lparr>op_status := failed\<rparr>]\<rparr>"

text \<open>The three chunks of a small archive.\<close>

definition toy_chunks :: "nat \<Rightarrow> bytes" where
  "toy_chunks i = [''PKbooks_'', ''data.db:'', ''XY|''] ! i"

text \<open>The three chunks of an earlier upload under the same upload id.\<close>

definition stale_chunks :: "nat \<Rightarrow> bytes" where
  "stale_chunks i = [''PKbooks_'', ''data.db:'', ''OLD|''] ! i"

section \<open>Properties\<close>

subsection \<open>The streaming loop\<close>

lemma generate_loop_pos:
  "1 \<le> chunk_size \<Longrightarrow> remaining \<le> PY_SSIZE_T_MAX - 33 \<Longrightarrow>
   generate_loop content pos chunk_size remaining =
     (bs, fin) \<Longrightarrow> concat bs = take (nat remaining) (drop pos content) \<and> fin = Exhausted"
proof (induction content pos chunk_size remaining arbitrary: bs fin rule: generate_loop.induct)
  case (1 content pos chunk_size remaining)
  show ?case
  proof (cases "remaining > 0")
    case False
    with "1.prems" show ?thesis by (simp add: generate_loop.simps)
  next
    case True
    define n where "n = min chunk_size remaining"
    have n1: "1 \<le> n" "n \<le> remaining" using True "1.prems"(1) by (auto simp: n_def)
    define data where "data = take (nat n) (drop pos content)"
    have rd: "file_read content pos (min chunk_size remaining) = Inr data"
    proof -
      have "\<not> n < - 1" "n \<noteq> - 1" using n1 by auto
      moreover have "\<not> (n < - PY_SSIZE_T_MAX - 1 \<or> PY_SSIZE_T_MAX - 33 < n)"
        using n1 "1.prems"(2) by (simp add: PY_SSIZE_T_MAX_def)
      ultimately show ?thesis unfolding file_read_def data_def n_def by simp
    qed
    show ?thesis
    proof (cases "data = []")
      case True
      then have "take (nat remaining) (drop pos content) = []"
        using n1 by (auto simp: data_def)
      moreover have "bs = [] \<and> fin = Exhausted"
        using "1.prems"(3) \<open>remaining > 0\<close> rd True
        by (subst (asm) generate_loop.simps) simp
      ultimately show ?thesis by simp
    next
      case False
      obtain bs' fin' where rec:
        "generate_loop content (pos + length data) chunk_size (remaining - int (length data))
           = (bs', fin')"
        by force
      have "remaining - int (length data) \<le> PY_SSIZE_T_MAX - 33" using "1.prems"(2) by simp
      note IH' = "1.IH"[OF True rd False "1.prems"(1) this rec]
      have IH: "concat bs' = take (nat (remaining - int (length data)))
                  (drop (pos + length data) content) \<and> fin' = Exhausted"
        using IH' .
      have res: "bs = data # bs'" "fin = fin'"
        using "1.prems"(3) True rd False rec
        by (subst (asm) generate_loop.simps, simp)+
      have len: "length data \<le> nat remaining" using n1 by (simp add: data_def)
      have "data = take (length data) (drop pos content)"
        by (simp add: data_def min_def)
      then have "take (nat remaining) (drop pos content) =
            data @ take (nat remaining - length data) (drop (length data) (drop pos content))"
        using len
        by (metis append_take_drop_id le_add_diff_inverse take_add take_drop)
      moreover have "nat (remaining - int (length data)) = nat remaining - length data"
        using True by arith
      ultimately show ?thesis using IH res
        by (simp add: add.commute)
    qed
  qed
qed

lemma generate_loop_nonpos:
  "remaining \<le> 0 \<Longrightarrow> generate_loop content pos chunk_size remaining = ([], Exhausted)"
  by (subst generate_loop.simps) simp

lemma generate_loop_zero: "generate_loop content pos 0 remaining = ([], Exhausted)"
  by (subst generate_loop.simps) (simp add: file_read_def PY_SSIZE_T_MAX_def)

lemma generate_loop_below:
  "chunk_size < - 1 \<Longrightarrow> 1 \<le> remaining \<Longrightarrow>
   generate_loop content pos chunk_size remaining =
     ([], Aborted (if chunk_size < - PY_SSIZE_T_MAX - 1 then OverflowError
                   else ValueError ''read length must be non-negative or -1''))"
  by (subst generate_loop.simps) (simp add: file_read_def min_def PY_SSIZE_T_MAX_def)

lemma generate_loop_minus_one:
  assumes "1 \<le> remaining" "pos < length content" "int pos + remaining \<le> int (length content)"
  shows "generate_loop content pos (- 1) remaining = ([drop pos content], Exhausted)"
proof -
  have "min (- 1) remaining = - 1" using assms(1) by simp
  then have rd: "file_read content pos (min (- 1) remaining) = Inr (drop pos content)"
    by (simp add: file_read_def PY_SSIZE_T_MAX_def)
  have ne: "drop pos content \<noteq> []" using assms(2) by simp
  have "remaining - int (length (drop pos content)) \<le> 0" using assms by simp
  then have "generate_loop content (pos + length (drop pos content)) (- 1)
      (remaining - int (length (drop pos content))) = ([], Exhausted)"
    by (rule generate_loop_nonpos)
  then show ?thesis using rd ne assms(1)
    by (subst generate_loop.simps) simp
qed

lemma archive_world_file: "files archive_world ''temp_backups/a.zip'' = Some ''abcdef''"
  by (simp add: archive_world_def write_file_def)

text \<open>
  C10, as amended. A download of an existing archive, with the window \<open>start\<close> to \<open>end\<close>
  that the handler resolves, always advertises \<open>end - start + 1\<close> in Content-Length. An
  empty window yields no byte. With \<open>chunk_size = 0\<close> the loop stops at its first, empty
  read and the body has no bytes. With \<open>chunk_size < -1\<close> the first read raises and no
  block is yielded: \<^verbatim>\<open>ValueError\<close> down to \<open>-2^63\<close>, \<^verbatim>\<open>OverflowError\<close> below. With
  \<open>chunk_size = -1\<close> the one read returns everything from \<open>start\<close> to the end of the
  file, whatever \<open>end\<close> is. With \<open>chunk_size \<ge> 1\<close> the loop ends after yielding the bytes
  from \<open>start\<close> to \<open>end\<close>: \<open>end - start + 1\<close> of them, and none if that is negative. The
  archive is a file that \<^verbatim>\<open>read\<close> can return in one piece.
\<close>

theorem stream_by_chunk_size:
  assumes "files w backup_path = Some archive" and "file_size = int (length archive)"
    and "file_size \<le> PY_SSIZE_T_MAX - 33"
    and "0 \<le> start" and "start < file_size"
    and "end = (if end0 \<ge> file_size then file_size - 1 else end0)"
  shows "\<exists>r w'. serve w backup_path fn ck file_size chunk_size ranged start end0 = (Stream r, w')
     \<and> map_of (headers r) ''Content-Length'' = Some (show_int (end - start + 1))
     \<and> (end < start \<longrightarrow> body r = [] \<and> body_end r = Exhausted)
     \<and> (chunk_size = 0 \<longrightarrow> body r = [] \<and> body_end r = Exhausted)
     \<and> (chunk_size < - 1 \<and> start \<le> end \<longrightarrow>
           body r = []
           \<and> body_end r = Aborted (if chunk_size < - PY_SSIZE_T_MAX - 1 then OverflowError
                                   else ValueError ''read length must be non-negative or -1''))
     \<and> (chunk_size = - 1 \<and> start \<le> end \<longrightarrow>
           body r = [drop (nat start) archive] \<and> body_end r = Exhausted)
     \<and> (1 \<le> chunk_size \<longrightarrow>
           concat (body r) = take (nat (end - start + 1)) (drop (nat start) archive)
           \<and> int (length (concat (body r))) = max 0 (end - start + 1)
           \<and> body_end r = Exhausted)"
proof -
  define cl where "cl = end - start + 1"
  obtain bs fin where g: "generate_loop archive (nat start) chunk_size cl = (bs, fin)"
    by force
  have gen: "generate w backup_path start cl chunk_size = (bs, fin)"
    using assms(1,4) g by (simp add: generate_def)
  have e: "end < file_size" using assms(5,6) by (auto split: if_splits)
  have sv: "\<exists>r w'. serve w backup_path fn ck file_size chunk_size ranged start end0 = (Stream r, w')
     \<and> map_of (headers r) ''Content-Length'' = Some (show_int cl) \<and> body r = bs \<and> body_end r = fin"
    using assms(5,6) gen unfolding serve_def cl_def by (simp add: Let_def)
  have n: "end < start \<longrightarrow> bs = [] \<and> fin = Exhausted"
    using g generate_loop_nonpos[of cl archive "nat start" chunk_size] by (auto simp: cl_def)
  have z: "chunk_size = 0 \<longrightarrow> bs = [] \<and> fin = Exhausted"
    using g by (auto simp: generate_loop_zero)
  have b: "chunk_size < - 1 \<and> start \<le> end \<longrightarrow>
      bs = [] \<and> fin = Aborted (if chunk_size < - PY_SSIZE_T_MAX - 1 then OverflowError
                                else ValueError ''read length must be non-negative or -1'')"
  proof
    assume a: "chunk_size < - 1 \<and> start \<le> end"
    then have "1 \<le> cl" by (simp add: cl_def)
    from generate_loop_below[of chunk_size cl archive "nat start"] a this g
    show "bs = [] \<and> fin = Aborted (if chunk_size < - PY_SSIZE_T_MAX - 1 then OverflowError
                                else ValueError ''read length must be non-negative or -1'')"
      by simp
  qed
  have m: "chunk_size = - 1 \<and> start \<le> end \<longrightarrow> bs = [drop (nat start) archive] \<and> fin = Exhausted"
    using g generate_loop_minus_one[of cl "nat start" archive] assms(2,4,5) e
    by (auto simp: cl_def)
  have p: "1 \<le> chunk_size \<longrightarrow> concat bs = take (nat cl) (drop (nat start) archive)
           \<and> int (length (concat bs)) = max 0 cl \<and> fin = Exhausted"
  proof
    assume c: "1 \<le> chunk_size"
    have bound: "cl \<le> PY_SSIZE_T_MAX - 33" using assms(3,4) e by (simp add: cl_def)
    from generate_loop_pos[OF c bound g]
    have 1: "concat bs = take (nat cl) (drop (nat start) archive)" and 2: "fin = Exhausted" by auto
    have "int (length (concat bs)) = max 0 cl"
      unfolding 1 using assms(2,4,5) e by (auto simp: cl_def)
    with 1 2 show "concat bs = take (nat cl) (drop (nat start) archive)
           \<and> int (length (concat bs)) = max 0 cl \<and> fin = Exhausted" by simp
  qed
  from sv n z b m p show ?thesis unfolding cl_def by blast
qed

theorem stream_by_chunk_size_witness:
  "(\<exists>r w'. serve archive_world ''temp_backups/a.zip'' ''a.zip'' ''597'' 6 2 True 1 9 = (Stream r, w')
      \<and> map_of (headers r) ''Content-Length'' = Some (show_int 5)
      \<and> concat (body r) = ''bcdef'' \<and> body_end r = Exhausted)
   \<and> (\<exists>r w'. serve archive_world ''temp_backups/a.zip'' ''a.zip'' ''597'' 6 0 True 1 9 = (Stream r, w')
      \<and> map_of (headers r) ''Content-Length'' = Some (show_int 5)
      \<and> body r = [] \<and> body_end r = Exhausted)
   \<and> (\<exists>r w'. serve archive_world ''temp_backups/a.zip'' ''a.zip'' ''597'' 6 (- 1) True 1 3 = (Stream r, w')
      \<and> map_of (headers r) ''Content-Length'' = Some (show_int 3)
      \<and> body r = [''bcdef''] \<and> body_end r = Exhausted)
   \<and> (\<exists>r w'. serve archive_world ''temp_backups/a.zip'' ''a.zip'' ''597'' 6 (- 2) True 1 3 = (Stream r, w')
      \<and> body r = []
      \<and> body_end r = Aborted (ValueError ''read length must be non-negative or -1''))
   \<and> (\<exists>r w'. serve archive_world ''temp_backups/a.zip'' ''a.zip'' ''597'' 6
                 (- 9223372036854775809) True 1 3 = (Stream r, w')
      \<and> body r = [] \<and> body_end r = Aborted OverflowError)
   \<and> (\<exists>r w'. serve archive_world ''temp_backups/a.zip'' ''a.zip'' ''597'' 6 (- 2) True 3 2 = (Stream r, w')
      \<and> map_of (headers r) ''Content-Length'' = Some (show_int 0)
      \<and> body r = [] \<and> body_end r = Exhausted)"
proof -
  have l: "6 = int (length ''abcdef'')" by simp
  have k: "(6::int) \<le> PY_SSIZE_T_MAX - 33" by (simp add: PY_SSIZE_T_MAX_def)
  note T = stream_by_chunk_size [OF archive_world_file l k, of 1 _ _ "''a.zip''" "''597''" _ True]
  have "\<exists>r w'. serve archive_world ''temp_backups/a.zip'' ''a.zip'' ''597'' 6 2 True 1 9 = (Stream r, w')
     \<and> map_of (headers r) ''Content-Length'' = Some (show_int (5 - 1 + 1))
     \<and> (1 \<le> (2::int) \<longrightarrow>
           concat (body r) = take (nat (5 - 1 + 1)) (drop (nat 1) ''abcdef'')
           \<and> body_end r = Exhausted)"
    using T [of 5 9 2] by fastforce
  then have A: "\<exists>r w'. serve archive_world ''temp_backups/a.zip'' ''a.zip'' ''597'' 6 2 True 1 9 = (Stream r, w')
      \<and> map_of (headers r) ''Content-Length'' = Some (show_int 5)
      \<and> concat (body r) = ''bcdef'' \<and> body_end r = Exhausted"
    by simp
  have "\<exists>r w'. serve archive_world ''temp_backups/a.zip'' ''a.zip'' ''597'' 6 0 True 1 9 = (Stream r, w')
     \<and> map_of (headers r) ''Content-Length'' = Some (show_int (5 - 1 + 1))
     \<and> ((0::int) = 0 \<longrightarrow> body r = [] \<and> body_end r = Exhausted)"
    using T [of 5 9 0] by fastforce
  then have B: "\<exists>r w'. serve archive_world ''temp_backups/a.zip'' ''a.zip'' ''597'' 6 0 True 1 9 = (Stream r, w')
      \<and> map_of (headers r) ''Content-Length'' = Some (show_int 5)
      \<and> body r = [] \<and> body_end r = Exhausted"
    by simp
  have "\<exists>r w'. serve archive_world ''temp_backups/a.zip'' ''a.zip'' ''597'' 6 (- 1) True 1 3 = (Stream r, w')
     \<and> map_of (headers r) ''Content-Length'' = Some (show_int (3 - 1 + 1))
     \<and> ((- 1::int) = - 1 \<and> (1::int) \<le> 3 \<longrightarrow>
           body r = [drop (nat 1) ''abcdef''] \<and> body_end r = Exhausted)"
    using T [of 3 3 "- 1"] by fastforce
  then have C: "\<exists>r w'. serve archive_world ''temp_backups/a.zip'' ''a.zip'' ''597'' 6 (- 1) True 1 3 = (Stream r, w')
      \<and> map_of (headers r) ''Content-Length'' = Some (show_int 3)
      \<and> body r = [''bcdef''] \<and> body_end r = Exhausted"
    by simp
  have "\<exists>r w'. serve archive_world ''temp_backups/a.zip'' ''a.zip'' ''597'' 6 (- 2) True 1 3 = (Stream r, w')
     \<and> ((- 2::int) < - 1 \<and> (1::int) \<le> 3 \<longrightarrow>
           body r = []
           \<and> body_end r = Aborted (if (- 2::int) < - PY_SSIZE_T_MAX - 1 then OverflowError
                                   else ValueError ''read length must be non-negative or -1''))"
    using T [of 3 3 "- 2"] by fastforce
  then have D: "\<exists>r w'. serve archive_world ''temp_backups/a.zip'' ''a.zip'' ''597'' 6 (- 2) True 1 3 = (Stream r, w')
      \<and> body r = []
      \<and> body_end r = Aborted (ValueError ''read length must be non-negative or -1'')"
    by (simp add: PY_SSIZE_T_MAX_def)
  have "\<exists>r w'. serve archive_world ''temp_backups/a.zip'' ''a.zip'' ''597'' 6
                 (- 9223372036854775809) True 1 3 = (Stream r, w')
     \<and> ((- 9223372036854775809::int) < - 1 \<and> (1::int) \<le> 3 \<longrightarrow>
           body r = []
           \<and> body_end r = Aborted (if (- 9223372036854775809::int) < - PY_SSIZE_T_MAX - 1
                                   then OverflowError
                                   else ValueError ''read length must be non-negative or -1''))"
    using T [of 3 3 "- 9223372036854775809"] by fastforce
  then have E: "\<exists>r w'. serve archive_world ''temp_backups/a.zip'' ''a.zip'' ''597'' 6
                 (- 9223372036854775809) True 1 3 = (Stream r, w')
      \<and> body r = [] \<and> body_end r = Aborted OverflowError"
    by (simp add: PY_SSIZE_T_MAX_def)
  note T3 = stream_by_chunk_size [OF archive_world_file l k, of 3 _ _ "''a.zip''" "''597''" _ True]
  have "\<exists>r w'. serve archive_world ''temp_backups/a.zip'' ''a.zip'' ''597'' 6 (- 2) True 3 2 = (Stream r, w')
     \<and> map_of (headers r) ''Content-Length'' = Some (show_int (2 - 3 + 1))
     \<and> ((2::int) < 3 \<longrightarrow> body r = [] \<and> body_end r = Exhausted)"
    using T3 [of 2 2 "- 2"] by fastforce
  then have F: "\<exists>r w'. serve archive_world ''temp_backups/a.zip'' ''a.zip'' ''597'' 6 (- 2) True 3 2 = (Stream r, w')
      \<and> map_of (headers r) ''Content-Length'' = Some (show_int 0)
      \<and> body r = [] \<and> body_end r = Exhausted"
    by simp
  from A B C D E F show ?thesis by (intro conjI)
qed

theorem negative_chunk_size_counterexample:
  "streamed (fst (backup_database toy_env (Some ''-1'') (Some ''bytes=0-0'') toy_world))
     = ''PKbooks_data.db:AAAA|books_static.db:BB|''"
  by code_simp

subsection \<open>Ranges\<close>

lemma serve_stream:
  assumes "files w backup_path = Some archive" and "0 \<le> start" and "start < file_size"
    and "end = (if end0 \<ge> file_size then file_size - 1 else end0)"
    and "generate_loop archive (nat start) chunk_size (end - start + 1) = (bs, fin)"
  shows "\<exists>r w'. serve w backup_path fn ck file_size chunk_size ranged start end0 = (Stream r, w')
     \<and> status_code r = (if ranged then 206 else 200)
     \<and> map_of (headers r) ''Content-Length'' = Some (show_int (end - start + 1))
     \<and> (ranged \<longrightarrow> map_of (headers r) ''Content-Range'' =
            Some (''bytes '' @ show_int start @ ''-'' @ show_int end @ ''/'' @ show_int file_size))
     \<and> body r = bs \<and> body_end r = fin"
proof -
  have gen: "generate w backup_path start (end - start + 1) chunk_size = (bs, fin)"
    using assms(1,2,5) by (simp add: generate_def)
  show ?thesis
    using assms(3,4) gen unfolding serve_def by (simp add: Let_def)
qed

lemma streamed_serve:
  assumes "files w backup_path = Some archive" and "file_size = int (length archive)"
    and "0 \<le> s" and "s \<le> e" and "e < file_size" and "1 \<le> chunk_size"
    and "file_size \<le> PY_SSIZE_T_MAX - 33"
  shows "streamed (fst (serve w backup_path fn ck file_size chunk_size ranged s e))
     = take (nat (e - s + 1)) (drop (nat s) archive)"
proof -
  obtain bs fin where g: "generate_loop archive (nat s) chunk_size (e - s + 1) = (bs, fin)"
    by force
  have "e = (if e \<ge> file_size then file_size - 1 else e)" using assms(5) by simp
  from serve_stream[OF assms(1,3) _ this g, of fn ck ranged] assms(4,5)
  obtain r w' where "serve w backup_path fn ck file_size chunk_size ranged s e = (Stream r, w')"
    "body r = bs" by auto
  moreover have "e - s + 1 \<le> PY_SSIZE_T_MAX - 33" using assms(3,5,7) by simp
  ultimately show ?thesis using generate_loop_pos[OF assms(6) _ g] by (simp add: streamed_def)
qed

lemma tiles_concat:
  "tiles a rs (int (length archive)) \<Longrightarrow> 0 \<le> a \<Longrightarrow>
   concat (map (\<lambda>(s, e). take (nat (e - s + 1)) (drop (nat s) archive)) rs) = drop (nat a) archive"
proof (induction rs arbitrary: a)
  case Nil
  then show ?case by simp
next
  case (Cons r rs)
  obtain s e where r: "r = (s, e)" by (cases r)
  from Cons.prems r have t: "s = a" "s \<le> e" "e < int (length archive)"
    "tiles (e + 1) rs (int (length archive))" by auto
  have IH: "concat (map (\<lambda>(s, e). take (nat (e - s + 1)) (drop (nat s) archive)) rs)
      = drop (nat (e + 1)) archive"
    using Cons.IH[OF t(4)] Cons.prems(2) t by simp
  have n: "nat (e + 1) = nat (e - s + 1) + nat s" using Cons.prems(2) t by simp
  have "concat (map (\<lambda>(s, e). take (nat (e - s + 1)) (drop (nat s) archive)) (r # rs))
      = take (nat (e - s + 1)) (drop (nat s) archive) @ drop (nat (e + 1)) archive"
    using IH r by simp
  also have "drop (nat (e + 1)) archive = drop (nat (e - s + 1)) (drop (nat s) archive)"
    unfolding n by (simp only: drop_drop)
  also have "take (nat (e - s + 1)) (drop (nat s) archive)
      @ drop (nat (e - s + 1)) (drop (nat s) archive) = drop (nat s) archive"
    by (rule append_take_drop_id)
  finally show ?case using t(1) by simp
qed

lemma tiles_of_cover:
  "distinct rs \<Longrightarrow> sorted (map fst rs) \<Longrightarrow>
   pairwise (\<lambda>(s, e) (s', e'). {s..e} \<inter> {s'..e'} = {}) (set rs) \<Longrightarrow>
   \<forall>(s, e) \<in> set rs. s \<le> e \<Longrightarrow>
   (\<Union>(s, e) \<in> set rs. {s..e}) = {a..<l} \<Longrightarrow> a \<le> l \<Longrightarrow> tiles a rs l"
proof (induction rs arbitrary: a)
  case Nil
  then show ?case by simp
next
  case (Cons r rs)
  obtain s e where r: "r = (s, e)" by (cases r)
  have se: "s \<le> e" using Cons.prems(4) r by simp
  have U: "{s..e} \<union> (\<Union>(s, e) \<in> set rs. {s..e}) = {a..<l}"
    using Cons.prems(5) r by simp
  have "s \<in> {a..<l}" "e \<in> {a..<l}" using U se by auto
  then have b: "a \<le> s" "s < l" "e < l" by auto
  have "a \<in> {s..e} \<union> (\<Union>(s, e) \<in> set rs. {s..e})" using U b by auto
  then have "s \<le> a"
  proof
    assume "a \<in> {s..e}" then show ?thesis by simp
  next
    assume "a \<in> (\<Union>(s, e) \<in> set rs. {s..e})"
    then obtain s' e' where m: "(s', e') \<in> set rs" "s' \<le> a" by auto
    have "s \<le> s'" using Cons.prems(2) r m(1) by force
    with m show ?thesis by simp
  qed
  with b have sa: "s = a" by simp
  have disj: "\<forall>(s', e') \<in> set rs. {s..e} \<inter> {s'..e'} = {}"
  proof -
    have "r \<notin> set rs" using Cons.prems(1) by simp
    then show ?thesis using Cons.prems(3) r
      by (auto simp: pairwise_insert)
  qed
  have rest: "(\<Union>(s, e) \<in> set rs. {s..e}) = {e + 1..<l}"
  proof -
    have "(\<Union>(s, e) \<in> set rs. {s..e}) \<inter> {s..e} = {}" using disj by fastforce
    then have "(\<Union>(s, e) \<in> set rs. {s..e}) = {a..<l} - {s..e}" using U by blast
    also have "\<dots> = {e + 1..<l}" using sa se by auto
    finally show ?thesis .
  qed
  have "tiles (e + 1) rs l"
  proof (rule Cons.IH[OF _ _ _ _ rest])
    show "distinct rs" using Cons.prems(1) by simp
    show "sorted (map fst rs)" using Cons.prems(2) by simp
    show "pairwise (\<lambda>(s, e) (s', e'). {s..e} \<inter> {s'..e'} = {}) (set rs)"
      using Cons.prems(3) by (auto simp: pairwise_insert)
    show "\<forall>(s, e) \<in> set rs. s \<le> e" using Cons.prems(4) by simp
    show "e + 1 \<le> l" using b by simp
  qed
  then show ?case using r sa se b by simp
qed

text \<open>Windows that tile the archive stream the archive, piece by piece.\<close>

lemma windows_concat_full:
  assumes fl: "files w backup_path = Some archive" and size: "file_size = int (length archive)"
    and dist: "distinct rs" and ord: "sorted (map fst rs)"
    and disj: "pairwise (\<lambda>(s, e) (s', e'). {s..e} \<inter> {s'..e'} = {}) (set rs)"
    and inb: "\<forall>(s, e) \<in> set rs. 0 \<le> s \<and> s \<le> e \<and> e < file_size"
    and cover: "(\<Union>(s, e) \<in> set rs. {s..e}) = {0..<file_size}"
    and cs: "\<forall>r \<in> set rs. 1 \<le> chunk_size_of r" and c: "1 \<le> chunk_size"
    and fits: "file_size \<le> PY_SSIZE_T_MAX - 33"
  shows "concat (map (\<lambda>(s, e). streamed (fst (serve w backup_path fn ck file_size
                         (chunk_size_of (s, e)) True s e))) rs)
     = streamed (fst (serve w backup_path fn ck file_size chunk_size False 0 (file_size - 1)))
   \<and> concat (map (\<lambda>(s, e). streamed (fst (serve w backup_path fn ck file_size
                         (chunk_size_of (s, e)) True s e))) rs) = archive"
proof -
  have t: "tiles 0 rs (int (length archive))"
    using tiles_of_cover[OF dist ord disj _ cover] inb size by auto
  have each: "map (\<lambda>(s, e). streamed (fst (serve w backup_path fn ck file_size
                         (chunk_size_of (s, e)) True s e))) rs
     = map (\<lambda>(s, e). take (nat (e - s + 1)) (drop (nat s) archive)) rs"
  proof (rule map_cong[OF refl])
    fix r assume r: "r \<in> set rs"
    obtain s e where se: "r = (s, e)" by (cases r)
    have "0 \<le> s" "s \<le> e" "e < file_size" "1 \<le> chunk_size_of (s, e)"
      using inb cs r se by auto
    from streamed_serve[OF fl size this fits]
    show "(case r of (s, e) \<Rightarrow> streamed (fst (serve w backup_path fn ck file_size
                         (chunk_size_of (s, e)) True s e)))
       = (case r of (s, e) \<Rightarrow> take (nat (e - s + 1)) (drop (nat s) archive))"
      using se by simp
  qed
  have parts: "concat (map (\<lambda>(s, e). streamed (fst (serve w backup_path fn ck file_size
                         (chunk_size_of (s, e)) True s e))) rs) = archive"
    unfolding each using tiles_concat[OF t] by simp
  have full: "streamed (fst (serve w backup_path fn ck file_size chunk_size False 0 (file_size - 1)))
     = archive"
  proof (cases "archive = []")
    case True
    then show ?thesis using size by (simp add: serve_def streamed_def)
  next
    case False
    then have "0 \<le> file_size - 1" "file_size - 1 < file_size" using size by (auto simp: Suc_leI)
    have "streamed (fst (serve w backup_path fn ck file_size chunk_size False 0 (file_size - 1)))
       = take (nat (file_size - 1 - 0 + 1)) (drop (nat 0) archive)"
      by (rule streamed_serve[OF fl size _ _ _ c fits]) (use False size in auto)
    then show ?thesis using size by simp
  qed
  from parts full show ?thesis by simp
qed

lemma zip_entries_all_exist:
  "zip_entries w ps = Inr es \<Longrightarrow> find (\<lambda>db_path. files w db_path = None) ps = None"
  by (induction ps arbitrary: es) (auto split: option.splits sum.splits)

lemma split_on_no_sep: "t \<in> set (split_on sep s) \<Longrightarrow> sep \<notin> set t"
  by (induction s arbitrary: t) (auto split: if_splits list.splits)

lemma set_strip: "set (strip s) \<subseteq> set s"
proof -
  have "set (strip s) \<subseteq> set (rev (dropWhile is_space s))"
    unfolding strip_def by (metis set_dropWhileD set_rev subsetI)
  also have "\<dots> \<subseteq> set s" by (auto dest: set_dropWhileD)
  finally show ?thesis .
qed

lemma py_int_nonneg: "CHR ''-'' \<notin> set s \<Longrightarrow> py_int s = Some i \<Longrightarrow> 0 \<le> i"
proof -
  assume a: "CHR ''-'' \<notin> set s" and b: "py_int s = Some i"
  have "CHR ''-'' \<notin> set (strip s)" using a set_strip by blast
  then show ?thesis using b unfolding py_int_def
    by (auto split: list.splits if_splits)
qed

lemma parse_range_start_nonneg:
  assumes "parse_range h l = Inr (start, end)" shows "0 \<le> start"
proof -
  obtain m0 ms where sp: "split_on CHR ''-'' (replace_bytes_eq h) = m0 # ms"
    using assms unfolding parse_range_def by (auto split: list.splits)
  then have "CHR ''-'' \<notin> set m0" using split_on_no_sep[of m0 "CHR ''-''" "replace_bytes_eq h"] by simp
  moreover have "(if m0 \<noteq> [] then py_int m0 else Some 0) = Some start"
    using assms sp unfolding parse_range_def by (auto split: list.splits option.splits)
  ultimately show ?thesis using py_int_nonneg[of m0 start] by (auto split: if_splits)
qed

text \<open>
  C4. All database files exist, so that the archive is built, and its length is \<open>L\<close>. A
  request carries a Range header whose start and end parse. If \<open>start \<ge> L\<close> the reply is
  the 416 error "Range not satisfiable" and nothing is streamed. If \<open>start < L\<close> and
  \<open>end \<ge> L\<close> the end is clamped to \<open>L - 1\<close>: the reply is a 206 stream with
  Content-Range \<open>bytes start-(L-1)/L\<close> and Content-Length \<open>L - start\<close>, and with a block
  size of at least one byte, the default or the request's own, its body is the archive
  from \<open>start\<close> to its last byte. The archive is a file that \<^verbatim>\<open>read\<close> can return in
  one piece.
\<close>

theorem range_bounds:
  assumes "zip_entries w DATABASE_PATHS = Inr es" and "archive = zip_write E es"
    and "L = int (length archive)" and "L \<le> PY_SSIZE_T_MAX - 33"
    and "h \<noteq> []" and "parse_range h L = Inr (start, end)"
  shows "(start \<ge> L \<longrightarrow>
            fst (backup_database E cs (Some h) w) = Json_error (Msg ''Range not satisfiable'') 416
            \<and> streamed (fst (backup_database E cs (Some h) w)) = [])
     \<and> (start < L \<and> end \<ge> L \<longrightarrow>
          (\<exists>r. fst (backup_database E cs (Some h) w) = Stream r
             \<and> status_code r = 206
             \<and> map_of (headers r) ''Content-Range'' =
                  Some (''bytes '' @ show_int start @ ''-'' @ show_int (L - 1) @ ''/'' @ show_int L)
             \<and> map_of (headers r) ''Content-Length'' = Some (show_int (L - 1 - start + 1))
             \<and> (1 \<le> requested_chunk_size cs \<longrightarrow>
                    concat (body r) = drop (nat start) archive \<and> body_end r = Exhausted)))"
proof -
  define backup_filename where "backup_filename = ''books_db_backup_'' @ timestamp E @ ''.zip''"
  define backup_path where "backup_path = path_join ''temp_backups'' backup_filename"
  define w1 where "w1 = write_file backup_path archive w"
  define chunk_size where "chunk_size = requested_chunk_size cs"
  have f1: "files w1 backup_path = Some archive" by (simp add: w1_def write_file_def)
  have bd: "backup_database E cs (Some h) w =
      serve w1 backup_path backup_filename (md5_hexdigest E archive) L chunk_size True start end"
    unfolding backup_database_def
    using assms zip_entries_all_exist[OF assms(1)]
    by (simp add: Let_def backup_filename_def backup_path_def w1_def chunk_size_def)
  have A: "start \<ge> L \<longrightarrow>
            fst (backup_database E cs (Some h) w) = Json_error (Msg ''Range not satisfiable'') 416
            \<and> streamed (fst (backup_database E cs (Some h) w)) = []"
    unfolding bd by (simp add: serve_def streamed_def)
  have B: "\<exists>r. fst (backup_database E cs (Some h) w) = Stream r
             \<and> status_code r = 206
             \<and> map_of (headers r) ''Content-Range'' =
                  Some (''bytes '' @ show_int start @ ''-'' @ show_int (L - 1) @ ''/'' @ show_int L)
             \<and> map_of (headers r) ''Content-Length'' = Some (show_int (L - 1 - start + 1))
             \<and> (1 \<le> requested_chunk_size cs \<longrightarrow>
                    concat (body r) = drop (nat start) archive \<and> body_end r = Exhausted)"
    if lt: "start < L" and ge: "end \<ge> L"
  proof -
    have s0: "0 \<le> start" using parse_range_start_nonneg[OF assms(6)] .
    obtain bs fin where g: "generate_loop archive (nat start) chunk_size (L - 1 - start + 1) = (bs, fin)"
      by force
    have e: "L - 1 = (if end \<ge> L then L - 1 else end)" using ge by simp
    from serve_stream[OF f1 s0 lt e g, of backup_filename "md5_hexdigest E archive" True]
    obtain r w' where r: "serve w1 backup_path backup_filename (md5_hexdigest E archive) L chunk_size True start end = (Stream r, w')"
      "status_code r = 206"
      "map_of (headers r) ''Content-Length'' = Some (show_int (L - 1 - start + 1))"
      "map_of (headers r) ''Content-Range'' =
            Some (''bytes '' @ show_int start @ ''-'' @ show_int (L - 1) @ ''/'' @ show_int L)"
      "body r = bs" "body_end r = fin" by auto
    have "concat bs = drop (nat start) archive \<and> fin = Exhausted"
      if "1 \<le> requested_chunk_size cs"
    proof -
      have c: "1 \<le> chunk_size" using that by (simp add: chunk_size_def)
      have "L - 1 - start + 1 \<le> PY_SSIZE_T_MAX - 33" using assms(4) s0 by simp
      from generate_loop_pos[OF c this g]
      show ?thesis using assms(3) s0 lt by simp
    qed
    with r show ?thesis unfolding bd by auto
  qed
  from A B show ?thesis by blast
qed

lemma toy_zip_entries:
  "zip_entries toy_world DATABASE_PATHS = Inr [(''books_data.db'', ''AAAA''), (''books_static.db'', ''BB'')]"
  by code_simp

lemma toy_archive:
  "''PKbooks_data.db:AAAA|books_static.db:BB|''
     = zip_write toy_env [(''books_data.db'', ''AAAA''), (''books_static.db'', ''BB'')]"
  by (simp add: toy_env_def)

theorem range_bounds_witness:
  "fst (backup_database toy_env None (Some ''bytes=40-'') toy_world)
     = Json_error (Msg ''Range not satisfiable'') 416
   \<and> streamed (fst (backup_database toy_env None (Some ''bytes=40-'') toy_world)) = []
   \<and> (\<exists>r. fst (backup_database toy_env (Some ''7'') (Some ''bytes=38-99'') toy_world) = Stream r
          \<and> status_code r = 206
          \<and> map_of (headers r) ''Content-Range'' = Some ''bytes 38-39/40''
          \<and> map_of (headers r) ''Content-Length'' = Some ''2''
          \<and> concat (body r) = ''B|'' \<and> body_end r = Exhausted)"
proof -
  have l: "40 = int (length ''PKbooks_data.db:AAAA|books_static.db:BB|'')" by simp
  have k: "(40::int) \<le> PY_SSIZE_T_MAX - 33" by (simp add: PY_SSIZE_T_MAX_def)
  have p1: "parse_range ''bytes=40-'' 40 = Inr (40, 39)" by code_simp
  have p2: "parse_range ''bytes=38-99'' 40 = Inr (38, 99)" by code_simp
  have c: "requested_chunk_size (Some ''7'') = 7" by code_simp
  have s: "show_int 38 = ''38''" "show_int 39 = ''39''" "show_int 40 = ''40''" "show_int 2 = ''2''"
    by code_simp+
  have A: "fst (backup_database toy_env None (Some ''bytes=40-'') toy_world)
     = Json_error (Msg ''Range not satisfiable'') 416
   \<and> streamed (fst (backup_database toy_env None (Some ''bytes=40-'') toy_world)) = []"
    using range_bounds [OF toy_zip_entries toy_archive l k _ p1, of None] by auto
  have B: "\<exists>r. fst (backup_database toy_env (Some ''7'') (Some ''bytes=38-99'') toy_world) = Stream r
          \<and> status_code r = 206
          \<and> map_of (headers r) ''Content-Range'' = Some ''bytes 38-39/40''
          \<and> map_of (headers r) ''Content-Length'' = Some ''2''
          \<and> concat (body r) = ''B|'' \<and> body_end r = Exhausted"
    using range_bounds [OF toy_zip_entries toy_archive l k _ p2, of "Some ''7''"] by (simp add: s c)
  from A B show ?thesis by blast
qed

subsection \<open>The restore: snapshot, extraction, registry\<close>

lemma bak_not_database: "p @ ''.'' @ ts @ ''.bak'' \<notin> set DATABASE_PATHS"
proof
  assume "p @ ''.'' @ ts @ ''.bak'' \<in> set DATABASE_PATHS"
  then have "last (p @ ''.'' @ ts @ ''.bak'') = CHR ''b''"
    unfolding DATABASE_PATHS_def by auto
  then show False by simp
qed

lemma backup_loop_registry [simp]:
  "OPERATIONS (backup_loop ts ps w) = OPERATIONS w" "reclaim (backup_loop ts ps w) = reclaim w"
  by (induction ps arbitrary: w) (auto split: option.splits simp: Let_def)

lemma backup_loop_files:
  "q \<notin> (\<lambda>p. p @ ''.'' @ ts @ ''.bak'') ` set ps \<Longrightarrow> files (backup_loop ts ps w) q = files w q"
  by (induction ps arbitrary: w) (auto split: option.splits simp: Let_def)

lemma backup_loop_log:
  "\<forall>p \<in> set ps. p @ ''.'' @ ts @ ''.bak'' \<notin> set ps \<Longrightarrow>
   log (backup_loop ts ps w)
     = log w @ map (\<lambda>p. Copy p (p @ ''.'' @ ts @ ''.bak'')) (filter (\<lambda>p. files w p \<noteq> None) ps)"
proof (induction ps arbitrary: w)
  case Nil
  then show ?case by simp
next
  case (Cons a ps)
  have IH: "\<And>w. log (backup_loop ts ps w)
     = log w @ map (\<lambda>p. Copy p (p @ ''.'' @ ts @ ''.bak'')) (filter (\<lambda>p. files w p \<noteq> None) ps)"
    using Cons by simp
  show ?case
  proof (cases "files w a")
    case None
    then show ?thesis using IH by simp
  next
    case (Some c)
    have same: "filter (\<lambda>p. ((files w)(a @ ''.'' @ ts @ ''.bak'' \<mapsto> c)) p \<noteq> None) ps
        = filter (\<lambda>p. files w p \<noteq> None) ps"
      using Cons.prems by (intro filter_cong) auto
    show ?thesis using Some IH same by (simp add: Let_def)
  qed
qed

lemma backup_loop_snapshot:
  "distinct ps \<Longrightarrow> p \<in> set ps \<Longrightarrow> files w p = Some c \<Longrightarrow>
   \<forall>p \<in> set ps. p @ ''.'' @ ts @ ''.bak'' \<notin> set ps \<Longrightarrow>
   files (backup_loop ts ps w) (p @ ''.'' @ ts @ ''.bak'') = Some c"
proof (induction ps arbitrary: w)
  case Nil
  then show ?case by simp
next
  case (Cons a ps)
  show ?case
  proof (cases "p = a")
    case True
    have "a @ ''.'' @ ts @ ''.bak'' \<notin> (\<lambda>p. p @ ''.'' @ ts @ ''.bak'') ` set ps"
      using Cons.prems(1) by auto
    then show ?thesis using True Cons.prems(3)
      by (simp add: Let_def backup_loop_files)
  next
    case False
    then have p: "p \<in> set ps" using Cons.prems(2) by simp
    have notbak: "p \<noteq> a @ ''.'' @ ts @ ''.bak''" using Cons.prems(4) p by auto
    show ?thesis
    proof (cases "files w a")
      case None
      then show ?thesis using Cons p by simp
    next
      case (Some d)
      have "files (backup_loop ts ps (w\<lparr>files := (files w)(a @ ''.'' @ ts @ ''.bak'' \<mapsto> d),
                  log := log w @ [Copy a (a @ ''.'' @ ts @ ''.bak'')]\<rparr>)) (p @ ''.'' @ ts @ ''.bak'') = Some c"
        using Cons.prems notbak p by (intro Cons.IH) auto
      then show ?thesis using Some by (simp add: Let_def)
    qed
  qed
qed

lemma extract_loop_registry [simp]:
  "OPERATIONS (snd (extract_loop E archive file_list ps restored w)) = OPERATIONS w"
  "reclaim (snd (extract_loop E archive file_list ps restored w)) = reclaim w"
  by (induction ps arbitrary: restored w)
     (auto split: entry_read.splits simp: Let_def write_file_def)

lemma extract_loop_files:
  "q \<notin> set ps \<Longrightarrow> files (snd (extract_loop E archive file_list ps restored w)) q = files w q"
  by (induction ps arbitrary: restored w)
     (auto split: entry_read.splits simp: Let_def write_file_def)

lemma extract_loop_log:
  "\<exists>ds. set ds \<subseteq> set ps \<and>
     log (snd (extract_loop E archive file_list ps restored w)) = log w @ map Write ds"
proof (induction ps arbitrary: restored w)
  case Nil
  show ?case by (rule exI[of _ "[]"]) simp
next
  case (Cons a ps)
  show ?case
  proof (cases "basename a \<in> set file_list")
    case False
    from Cons[of restored w] obtain ds where "set ds \<subseteq> set ps"
      "log (snd (extract_loop E archive file_list ps restored w)) = log w @ map Write ds" by blast
    then show ?thesis using False by (intro exI[of _ ds]) (auto simp: Let_def)
  next
    case True
    show ?thesis
    proof (cases "read_entry E archive (basename a)")
      case (Entry_data d)
      from Cons[of "restored @ [a]" "write_file a d w"] obtain ds where "set ds \<subseteq> set ps"
        "log (snd (extract_loop E archive file_list ps (restored @ [a]) (write_file a d w)))
           = log (write_file a d w) @ map Write ds" by blast
      then show ?thesis using True Entry_data
        by (intro exI[of _ "a # ds"]) (auto simp: Let_def write_file_def)
    next
      case (Entry_open_error e)
      then show ?thesis using True by (intro exI[of _ "[]"]) (simp add: Let_def)
    next
      case (Entry_read_error part e)
      then show ?thesis using True by (intro exI[of _ "[a]"]) (simp add: Let_def write_file_def)
    qed
  qed
qed

lemma extract_loop_nothing:
  "\<forall>p \<in> set ps. basename p \<notin> set file_list \<Longrightarrow>
   extract_loop E archive file_list ps restored w = (Inr restored, w)"
  by (induction ps arbitrary: restored w) (auto simp: Let_def)

lemma update_op_frame [simp]:
  "files (update_op k f w) = files w" "log (update_op k f w) = log w"
  "reclaim (update_op k f w) = reclaim w"
  by (auto simp: update_op_def split: option.splits)

lemma update_op_other: "k' \<noteq> k \<Longrightarrow> OPERATIONS (update_op k f w) k' = OPERATIONS w k'"
  by (auto simp: update_op_def split: option.splits)

lemma update_op_same: "OPERATIONS w k = Some r \<Longrightarrow> OPERATIONS (update_op k f w) k = Some (f r)"
  by (auto simp: update_op_def)

lemma mark_failed_frame [simp]:
  "files (snd (mark_failed k reply w)) = files w" "log (snd (mark_failed k reply w)) = log w"
  "reclaim (snd (mark_failed k reply w)) = reclaim w"
  by (auto simp: mark_failed_def split: option.splits)

lemma mark_failed_same:
  "OPERATIONS w k = Some r \<Longrightarrow>
   mark_failed k reply w = (reply, w\<lparr>OPERATIONS := (OPERATIONS w)(k \<mapsto> r\<lparr>op_status := failed\<rparr>)\<rparr>)"
  by (simp add: mark_failed_def)

lemma mark_failedD:
  "mark_failed k rp w = (x, w') \<Longrightarrow> log w' = log w \<and> files w' = files w \<and> reclaim w' = reclaim w"
  by (auto simp: mark_failed_def split: option.splits)

lemma database_paths_distinct: "distinct DATABASE_PATHS"
  by (simp add: DATABASE_PATHS_def)

lemma database_paths_no_bak: "\<forall>p \<in> set DATABASE_PATHS. p @ ''.'' @ ts @ ''.bak'' \<notin> set DATABASE_PATHS"
  using bak_not_database by blast

lemma extract_databases_frame:
  "OPERATIONS (snd (extract_databases E zip_path w)) = OPERATIONS w"
  "reclaim (snd (extract_databases E zip_path w)) = reclaim w"
  "q \<notin> set DATABASE_PATHS \<Longrightarrow> files (snd (extract_databases E zip_path w)) q = files w q"
  by (auto simp: extract_databases_def extract_loop_files split: option.splits sum.splits)

lemma extract_databases_log:
  "\<exists>ds. set ds \<subseteq> set DATABASE_PATHS \<and>
     log (snd (extract_databases E zip_path w)) = log w @ map Write ds"
proof (cases "files w zip_path")
  case None
  then show ?thesis by (intro exI[of _ "[]"]) (simp add: extract_databases_def)
next
  case (Some archive)
  show ?thesis
  proof (cases "open_zip E archive")
    case (Inl e)
    then show ?thesis using Some by (intro exI[of _ "[]"]) (simp add: extract_databases_def)
  next
    case (Inr file_list)
    then show ?thesis using Some extract_loop_log[of DATABASE_PATHS E archive file_list "[]" w]
      by (simp add: extract_databases_def)
  qed
qed

text \<open>What a restore leaves in the log and in the files that are not database files.\<close>

lemma perform_restore_trace:
  assumes "perform_restore E zip_path oid w = (reply, w')"
  shows "(log w' = log w \<and> files w' = files w)
     \<or> (\<exists>ds. set ds \<subseteq> set DATABASE_PATHS
           \<and> log w' = log w
                @ map (\<lambda>p. Copy p (p @ ''.'' @ timestamp E @ ''.bak''))
                    (filter (\<lambda>p. files w p \<noteq> None) DATABASE_PATHS)
                @ map Write ds
           \<and> (\<forall>q. q \<notin> set DATABASE_PATHS \<longrightarrow>
                 files w' q = files (backup_current_databases E w) q))"
proof (cases "OPERATIONS w oid")
  case None
  then show ?thesis using assms by (auto simp: perform_restore_def)
next
  case (Some r)
  define w1 where "w1 = update_op oid (\<lambda>r. r\<lparr>op_status := restoring\<rparr>) w"
  have w1: "files w1 = files w" "log w1 = log w" by (simp_all add: w1_def)
  show ?thesis
  proof (cases "case files w1 zip_path of None \<Rightarrow> False | Some c \<Rightarrow> is_zipfile E c")
    case False
    then have "w' = snd (mark_failed oid
                    (Reply [(''error'', JStr ''Invalid zip file''),
                            (''upload_id'', JStr oid)] 400) w1)"
      using assms Some unfolding perform_restore_def w1_def by (auto simp: Let_def)
    then show ?thesis using w1 by simp
  next
    case True
    define w2 where "w2 = backup_current_databases E w1"
    obtain res w3 where ex: "extract_databases E zip_path w2 = (res, w3)" by force
    have l2: "log w2 = log w @ map (\<lambda>p. Copy p (p @ ''.'' @ timestamp E @ ''.bak''))
                    (filter (\<lambda>p. files w p \<noteq> None) DATABASE_PATHS)"
      unfolding w2_def backup_current_databases_def
      using backup_loop_log[OF database_paths_no_bak, of "timestamp E" w1] w1 by simp
    obtain ds where ds: "set ds \<subseteq> set DATABASE_PATHS" "log w3 = log w2 @ map Write ds"
      using extract_databases_log[of E zip_path w2] ex by auto
    have f3: "\<forall>q. q \<notin> set DATABASE_PATHS \<longrightarrow> files w3 q = files (backup_current_databases E w) q"
    proof (intro allI impI)
      fix q assume "q \<notin> set DATABASE_PATHS"
      then have "files w3 q = files w2 q"
        using extract_databases_frame(3)[of q E zip_path w2] ex by simp
      also have "\<dots> = files (backup_current_databases E w) q"
      proof (cases "q \<in> (\<lambda>p. p @ ''.'' @ timestamp E @ ''.bak'') ` set DATABASE_PATHS")
        case False
        then show ?thesis unfolding w2_def backup_current_databases_def
          using w1 by (simp add: backup_loop_files)
      next
        case True
        then obtain p where p: "p \<in> set DATABASE_PATHS" "q = p @ ''.'' @ timestamp E @ ''.bak''"
          by auto
        show ?thesis
        proof (cases "files w p")
          case (Some c)
          then show ?thesis unfolding w2_def backup_current_databases_def p(2)
            using backup_loop_snapshot[OF database_paths_distinct p(1) _ database_paths_no_bak]
              w1 by simp
        next
          case None
          have "\<And>w. files w p = None \<Longrightarrow> files (backup_loop (timestamp E) DATABASE_PATHS w) q = files w q"
            using p database_paths_distinct
            unfolding DATABASE_PATHS_def by (auto simp: Let_def split: option.splits)
          then show ?thesis unfolding w2_def backup_current_databases_def
            using None w1 by simp
        qed
      qed
      finally show "files w3 q = files (backup_current_databases E w) q" .
    qed
    have "log w' = log w3 \<and> files w' = files w3"
      using assms Some True ex unfolding perform_restore_def w2_def w1_def
      by (auto simp: Let_def split: sum.splits if_splits dest: mark_failedD)
    then show ?thesis using l2 ds f3 by auto
  qed
qed

text \<open>
  C1. Whatever a call of \<open>perform_restore\<close> returns, the writes it adds to the log are
  ordered: when a database file is written (position \<open>i\<close>), every database file that
  existed before the call has already been copied to its timestamped \<^verbatim>\<open>.bak\<close> name (a
  position \<open>j < i\<close>), and after the call that copy holds the bytes the file had before.
\<close>

theorem snapshot_before_overwrite:
  assumes "perform_restore E zip_path oid w = (reply, w')"
  shows "\<exists>evs. log w' = log w @ evs
     \<and> (\<forall>i < length evs. \<forall>d \<in> set DATABASE_PATHS. evs ! i = Write d \<longrightarrow>
          (\<forall>p \<in> set DATABASE_PATHS. files w p \<noteq> None \<longrightarrow>
             (\<exists>j < i. evs ! j = Copy p (p @ ''.'' @ timestamp E @ ''.bak''))
             \<and> files w' (p @ ''.'' @ timestamp E @ ''.bak'') = files w p))"
proof -
  from perform_restore_trace[OF assms]
  show ?thesis
  proof
    assume "log w' = log w \<and> files w' = files w"
    then show ?thesis by (intro exI[of _ "[]"]) simp
  next
    assume "\<exists>ds. set ds \<subseteq> set DATABASE_PATHS
           \<and> log w' = log w
                @ map (\<lambda>p. Copy p (p @ ''.'' @ timestamp E @ ''.bak''))
                    (filter (\<lambda>p. files w p \<noteq> None) DATABASE_PATHS)
                @ map Write ds
           \<and> (\<forall>q. q \<notin> set DATABASE_PATHS \<longrightarrow>
                 files w' q = files (backup_current_databases E w) q)"
    then obtain ds where ds: "set ds \<subseteq> set DATABASE_PATHS"
      and lg: "log w' = log w
                @ map (\<lambda>p. Copy p (p @ ''.'' @ timestamp E @ ''.bak''))
                    (filter (\<lambda>p. files w p \<noteq> None) DATABASE_PATHS)
                @ map Write ds"
      and fl: "\<forall>q. q \<notin> set DATABASE_PATHS \<longrightarrow>
                 files w' q = files (backup_current_databases E w) q" by blast
    define cs where "cs = map (\<lambda>p. Copy p (p @ ''.'' @ timestamp E @ ''.bak''))
                    (filter (\<lambda>p. files w p \<noteq> None) DATABASE_PATHS)"
    show ?thesis
    proof (intro exI[of _ "cs @ map Write ds"] conjI allI impI ballI)
      show "log w' = log w @ cs @ map Write ds" using lg by (simp add: cs_def)
    next
      fix i d p
      assume i: "i < length (cs @ map Write ds)" and d: "d \<in> set DATABASE_PATHS"
        and ev: "(cs @ map Write ds) ! i = Write d"
        and p: "p \<in> set DATABASE_PATHS" and ex: "files w p \<noteq> None"
      have "\<not> i < length cs"
      proof
        assume "i < length cs"
        then have "(cs @ map Write ds) ! i = cs ! i" by (simp add: nth_append)
        moreover have "\<exists>p. cs ! i = Copy p (p @ ''.'' @ timestamp E @ ''.bak'')"
          using \<open>i < length cs\<close> unfolding cs_def by auto
        ultimately show False using ev by auto
      qed
      then have ge: "length cs \<le> i" by simp
      have "Copy p (p @ ''.'' @ timestamp E @ ''.bak'') \<in> set cs"
        using p ex unfolding cs_def by auto
      then obtain j where j: "j < length cs" "cs ! j = Copy p (p @ ''.'' @ timestamp E @ ''.bak'')"
        by (auto simp: in_set_conv_nth)
      then have "j < i" "(cs @ map Write ds) ! j = Copy p (p @ ''.'' @ timestamp E @ ''.bak'')"
        using ge by (auto simp: nth_append)
      then show "\<exists>j<i. (cs @ map Write ds) ! j = Copy p (p @ ''.'' @ timestamp E @ ''.bak'')"
        by blast
      obtain c where c: "files w p = Some c" using ex by auto
      have "files w' (p @ ''.'' @ timestamp E @ ''.bak'')
          = files (backup_current_databases E w) (p @ ''.'' @ timestamp E @ ''.bak'')"
        using fl bak_not_database by blast
      also have "\<dots> = Some c"
        unfolding backup_current_databases_def
        by (rule backup_loop_snapshot[OF database_paths_distinct p c database_paths_no_bak])
      finally show "files w' (p @ ''.'' @ timestamp E @ ''.bak'') = files w p" using c by simp
    qed
  qed
qed

text \<open>
  C5. The operation is registered and the file at \<open>zip_path\<close> is a structurally valid
  archive (\<open>is_zipfile\<close> accepts it and it opens) none of whose entries is named like the
  base name of a database file. Then the restore replies with the 400 error "No valid
  database files found in the backup", the operation is marked failed, and every database
  file holds the bytes it held before. (The archive is not stored under a snapshot name.)
\<close>

theorem nothing_to_restore:
  assumes "OPERATIONS w oid = Some r"
    and "files w zip_path = Some archive" and "is_zipfile E archive"
    and "open_zip E archive = Inr file_list"
    and "\<forall>p \<in> set DATABASE_PATHS. basename p \<notin> set file_list"
    and "zip_path \<notin> (\<lambda>p. p @ ''.'' @ timestamp E @ ''.bak'') ` set DATABASE_PATHS"
  shows "\<exists>w'. perform_restore E zip_path oid w =
            (Reply [(''error'', JStr ''No valid database files found in the backup''),
                    (''upload_id'', JStr oid)] 400, w')
      \<and> OPERATIONS w' oid = Some (r\<lparr>op_status := failed\<rparr>)
      \<and> (\<forall>p \<in> set DATABASE_PATHS. files w' p = files w p)"
proof -
  define w1 where "w1 = update_op oid (\<lambda>r. r\<lparr>op_status := restoring\<rparr>) w"
  define w2 where "w2 = backup_current_databases E w1"
  have z1: "files w1 zip_path = Some archive" using assms(2) by (simp add: w1_def)
  have z2: "files w2 zip_path = Some archive"
    unfolding w2_def backup_current_databases_def using z1 assms(6)
    by (simp add: backup_loop_files)
  have ex: "extract_databases E zip_path w2 = (Inr [], w2)"
    using z2 assms(4,5) by (simp add: extract_databases_def extract_loop_nothing)
  have o2: "OPERATIONS w2 oid = Some (r\<lparr>op_status := restoring\<rparr>)"
    unfolding w2_def backup_current_databases_def w1_def
    using assms(1) by (simp add: update_op_same)
  have pr: "perform_restore E zip_path oid w =
      mark_failed oid (Reply [(''error'', JStr ''No valid database files found in the backup''),
                              (''upload_id'', JStr oid)] 400) w2"
    using assms(1,3) z1 ex unfolding perform_restore_def w2_def w1_def
    by (simp add: Let_def)
  have f2: "\<forall>p \<in> set DATABASE_PATHS. files w2 p = files w p"
  proof
    fix p assume "p \<in> set DATABASE_PATHS"
    then have "p \<notin> (\<lambda>p. p @ ''.'' @ timestamp E @ ''.bak'') ` set DATABASE_PATHS"
      using bak_not_database by blast
    then show "files w2 p = files w p"
      unfolding w2_def backup_current_databases_def w1_def by (simp add: backup_loop_files)
  qed
  show ?thesis
    unfolding pr mark_failed_same[OF o2] using f2 by simp
qed

theorem nothing_to_restore_witness:
  "\<exists>w'. perform_restore toy_env ''temp_uploads/u/backup.zip'' ''u'' (staged_world ''PKother.db:XY|'') =
            (Reply [(''error'', JStr ''No valid database files found in the backup''),
                    (''upload_id'', JStr ''u'')] 400, w')
      \<and> OPERATIONS w' ''u'' = Some (staged_operation\<lparr>op_status := failed\<rparr>)
      \<and> (\<forall>p \<in> set DATABASE_PATHS. files w' p = files (staged_world ''PKother.db:XY|'') p)"
proof -
  have 1: "OPERATIONS (staged_world ''PKother.db:XY|'') ''u'' = Some staged_operation"
    by (simp add: staged_world_def)
  have 2: "files (staged_world ''PKother.db:XY|'') ''temp_uploads/u/backup.zip'' = Some ''PKother.db:XY|''"
    by (simp add: staged_world_def)
  have 3: "is_zipfile toy_env ''PKother.db:XY|''" by (simp add: toy_env_def)
  have 4: "open_zip toy_env ''PKother.db:XY|'' = Inr [''other.db'']" by code_simp
  have 5: "\<forall>p \<in> set DATABASE_PATHS. basename p \<notin> set [''other.db'']" by code_simp
  have 6: "''temp_uploads/u/backup.zip''
      \<notin> (\<lambda>p. p @ ''.'' @ timestamp toy_env @ ''.bak'') ` set DATABASE_PATHS"
    by (simp add: DATABASE_PATHS_def)
  show ?thesis by (rule nothing_to_restore [OF 1 2 3 4 5 6])
qed

theorem snapshot_before_overwrite_witness:
  "(\<exists>evs. log (snd (perform_restore toy_env ''temp_uploads/u/backup.zip'' ''u''
                      (staged_world ''PKbooks_data.db:XY|'')))
            = log (staged_world ''PKbooks_data.db:XY|'') @ evs
     \<and> (\<forall>i < length evs. \<forall>d \<in> set DATABASE_PATHS. evs ! i = Write d \<longrightarrow>
          (\<forall>p \<in> set DATABASE_PATHS. files (staged_world ''PKbooks_data.db:XY|'') p \<noteq> None \<longrightarrow>
             (\<exists>j < i. evs ! j = Copy p (p @ ''.'' @ timestamp toy_env @ ''.bak''))
             \<and> files (snd (perform_restore toy_env ''temp_uploads/u/backup.zip'' ''u''
                            (staged_world ''PKbooks_data.db:XY|'')))
                  (p @ ''.'' @ timestamp toy_env @ ''.bak'')
                = files (staged_world ''PKbooks_data.db:XY|'') p)))
   \<and> log (snd (perform_restore toy_env ''temp_uploads/u/backup.zip'' ''u''
                  (staged_world ''PKbooks_data.db:XY|'')))
      = [Copy ''database/books_data.db'' ''database/books_data.db.20240101_120000.bak'',
         Copy ''database/books_static.db'' ''database/books_static.db.20240101_120000.bak'',
         Write ''database/books_data.db'']"
proof -
  have "perform_restore toy_env ''temp_uploads/u/backup.zip'' ''u'' (staged_world ''PKbooks_data.db:XY|'')
      = (fst (perform_restore toy_env ''temp_uploads/u/backup.zip'' ''u'' (staged_world ''PKbooks_data.db:XY|'')),
         snd (perform_restore toy_env ''temp_uploads/u/backup.zip'' ''u'' (staged_world ''PKbooks_data.db:XY|'')))"
    by simp
  from snapshot_before_overwrite [OF this]
  have A: "\<exists>evs. log (snd (perform_restore toy_env ''temp_uploads/u/backup.zip'' ''u''
                      (staged_world ''PKbooks_data.db:XY|'')))
            = log (staged_world ''PKbooks_data.db:XY|'') @ evs
     \<and> (\<forall>i < length evs. \<forall>d \<in> set DATABASE_PATHS. evs ! i = Write d \<longrightarrow>
          (\<forall>p \<in> set DATABASE_PATHS. files (staged_world ''PKbooks_data.db:XY|'') p \<noteq> None \<longrightarrow>
             (\<exists>j < i. evs ! j = Copy p (p @ ''.'' @ timestamp toy_env @ ''.bak''))
             \<and> files (snd (perform_restore toy_env ''temp_uploads/u/backup.zip'' ''u''
                            (staged_world ''PKbooks_data.db:XY|'')))
                  (p @ ''.'' @ timestamp toy_env @ ''.bak'')
                = files (staged_world ''PKbooks_data.db:XY|'') p))" .
  have B: "log (snd (perform_restore toy_env ''temp_uploads/u/backup.zip'' ''u''
                  (staged_world ''PKbooks_data.db:XY|'')))
      = [Copy ''database/books_data.db'' ''database/books_data.db.20240101_120000.bak'',
         Copy ''database/books_static.db'' ''database/books_static.db.20240101_120000.bak'',
         Write ''database/books_data.db'']"
    by code_simp
  from A B show ?thesis by (rule conjI)
qed

subsection \<open>Paths in the staging directory\<close>

lemma show_nat_last: "show_nat n \<noteq> [] \<and> last (show_nat n) = digit_char (n mod 10)"
  by (induction n rule: show_nat.induct) (subst show_nat.simps, simp)+

lemma is_digit_digit_char: "d < 10 \<Longrightarrow> is_digit (digit_char d)"
  by (simp add: is_digit_def digit_char_def)

lemma chunk_name_last: "chunk_name i \<noteq> [] \<and> is_digit (last (chunk_name i))"
proof -
  have "is_digit (last (show_nat n))" for n
    using show_nat_last[of n] by (simp add: is_digit_digit_char)
  then show ?thesis using show_nat_last
    by (simp add: chunk_name_def show_int_def)
qed

lemma path_join_last: "b \<noteq> [] \<Longrightarrow> last (path_join a b) = last b"
  by (simp add: path_join_def)

lemma path_join_inject:
  assumes "path_join a b = path_join a c" and "b \<noteq> []" "hd b \<noteq> CHR ''/''" "c \<noteq> []" "hd c \<noteq> CHR ''/''"
  shows "b = c"
  using assms by (auto simp: path_join_def split: if_splits)

lemma chunk_not_combined: "path_join d (chunk_name i) \<noteq> path_join d ''combined.zip''"
proof
  assume "path_join d (chunk_name i) = path_join d ''combined.zip''"
  then have "last (path_join d (chunk_name i)) = last (path_join d ''combined.zip'')" by simp
  then have "last (chunk_name i) = CHR ''p''"
    using chunk_name_last[of i] by (simp add: path_join_last)
  then show False using chunk_name_last[of i] by (simp add: is_digit_def)
qed

lemma staged_not_database:
  "path_join d (chunk_name i) \<notin> set DATABASE_PATHS"
  "path_join d ''combined.zip'' \<notin> set DATABASE_PATHS"
  "path_join d ''backup.zip'' \<notin> set DATABASE_PATHS"
proof -
  have b: "p \<in> set DATABASE_PATHS \<Longrightarrow> last p = CHR ''b''" for p
    by (auto simp: DATABASE_PATHS_def)
  show "path_join d (chunk_name i) \<notin> set DATABASE_PATHS"
  proof
    assume "path_join d (chunk_name i) \<in> set DATABASE_PATHS"
    from b[OF this] have "last (chunk_name i) = CHR ''b''"
      using chunk_name_last[of i] by (simp add: path_join_last)
    then show False using chunk_name_last[of i] by (simp add: is_digit_def)
  qed
  show "path_join d ''combined.zip'' \<notin> set DATABASE_PATHS"
    using b[of "path_join d ''combined.zip''"] by (auto simp: path_join_last)
  show "path_join d ''backup.zip'' \<notin> set DATABASE_PATHS"
    using b[of "path_join d ''backup.zip''"] by (auto simp: path_join_last)
qed

lemma staged_not_bak:
  "path_join d (chunk_name i) \<noteq> p @ ''.'' @ ts @ ''.bak''"
  "path_join d ''combined.zip'' \<noteq> p @ ''.'' @ ts @ ''.bak''"
  "path_join d ''backup.zip'' \<noteq> p @ ''.'' @ ts @ ''.bak''"
proof -
  show "path_join d (chunk_name i) \<noteq> p @ ''.'' @ ts @ ''.bak''"
  proof
    assume "path_join d (chunk_name i) = p @ ''.'' @ ts @ ''.bak''"
    then have "last (path_join d (chunk_name i)) = CHR ''k''" by simp
    then have "last (chunk_name i) = CHR ''k''"
      using chunk_name_last[of i] by (simp add: path_join_last)
    then show False using chunk_name_last[of i] by (simp add: is_digit_def)
  qed
  show "path_join d ''combined.zip'' \<noteq> p @ ''.'' @ ts @ ''.bak''"
  proof
    assume "path_join d ''combined.zip'' = p @ ''.'' @ ts @ ''.bak''"
    then have "last (path_join d ''combined.zip'') = CHR ''k''" by simp
    then show False by (simp add: path_join_last)
  qed
  show "path_join d ''backup.zip'' \<noteq> p @ ''.'' @ ts @ ''.bak''"
  proof
    assume "path_join d ''backup.zip'' = p @ ''.'' @ ts @ ''.bak''"
    then have "last (path_join d ''backup.zip'') = CHR ''k''" by simp
    then show False by (simp add: path_join_last)
  qed
qed

subsection \<open>Assembly\<close>

lemma assemble_loop_complete:
  "\<forall>i \<in> set ixs. files w (path_join dir (chunk_name (int i))) = Some (c i) \<Longrightarrow>
   \<forall>i \<in> set ixs. path_join dir (chunk_name (int i)) \<noteq> cp \<Longrightarrow>
   files w cp = Some old \<Longrightarrow>
   assemble_loop dir cp ixs w = (None, w\<lparr>files := (files w)(cp \<mapsto> old @ concat (map c ixs))\<rparr>)"
proof (induction ixs arbitrary: w old)
  case Nil
  then have "(files w)(cp \<mapsto> old) = files w" by (simp add: fun_upd_idem)
  then show ?case by simp
next
  case (Cons i ixs)
  define w1 where "w1 = append_file cp (c i) w"
  have w1: "w1 = w\<lparr>files := (files w)(cp \<mapsto> old @ c i)\<rparr>"
    using Cons.prems(3) by (simp add: w1_def append_file_def)
  have step: "assemble_loop dir cp (i # ixs) w = assemble_loop dir cp ixs w1"
    using Cons.prems(1) by (simp add: Let_def w1_def)
  have rec: "assemble_loop dir cp ixs w1
      = (None, w1\<lparr>files := (files w1)(cp \<mapsto> (old @ c i) @ concat (map c ixs))\<rparr>)"
    using Cons.prems by (intro Cons.IH) (auto simp: w1)
  have eq: "w1\<lparr>files := (files w1)(cp \<mapsto> (old @ c i) @ concat (map c ixs))\<rparr>
      = w\<lparr>files := (files w)(cp \<mapsto> old @ concat (map c (i # ixs)))\<rparr>"
    by (simp add: w1)
  show ?case by (simp only: step rec eq)
qed

lemma assemble_loop_missing:
  "\<exists>i \<in> set ixs. files w (path_join dir (chunk_name (int i))) = None \<Longrightarrow>
   \<forall>i \<in> set ixs. path_join dir (chunk_name (int i)) \<noteq> cp \<Longrightarrow>
   \<exists>i \<in> set ixs. \<exists>w'. assemble_loop dir cp ixs w
        = (Some (FileNotFoundError (path_join dir (chunk_name (int i)))), w')
      \<and> files w (path_join dir (chunk_name (int i))) = None
      \<and> OPERATIONS w' = OPERATIONS w \<and> log w' = log w \<and> reclaim w' = reclaim w
      \<and> (\<forall>q. q \<noteq> cp \<longrightarrow> files w' q = files w q)"
proof (induction ixs arbitrary: w)
  case Nil
  then show ?case by simp
next
  case (Cons i ixs)
  show ?case
  proof (cases "files w (path_join dir (chunk_name (int i)))")
    case None
    then show ?thesis by (intro bexI[of _ i]) (auto simp: Let_def)
  next
    case (Some ci)
    define w1 where "w1 = append_file cp ci w"
    have fr: "OPERATIONS w1 = OPERATIONS w" "log w1 = log w" "reclaim w1 = reclaim w"
      "\<And>q. q \<noteq> cp \<Longrightarrow> files w1 q = files w q"
      by (simp_all add: w1_def append_file_def)
    have "\<exists>j \<in> set ixs. files w1 (path_join dir (chunk_name (int j))) = None"
      using Cons.prems Some fr(4) by auto
    from Cons.IH[OF this] Cons.prems(2)
    obtain j w' where j: "j \<in> set ixs"
      "assemble_loop dir cp ixs w1 = (Some (FileNotFoundError (path_join dir (chunk_name (int j)))), w')"
      "files w1 (path_join dir (chunk_name (int j))) = None"
      "OPERATIONS w' = OPERATIONS w1" "log w' = log w1" "reclaim w' = reclaim w1"
      "\<forall>q. q \<noteq> cp \<longrightarrow> files w' q = files w1 q" by auto
    have "files w (path_join dir (chunk_name (int j))) = None"
      using j(1,3) fr(4) Cons.prems(2) by auto
    then show ?thesis using j fr Some
      by (intro bexI[of _ j]) (auto simp: Let_def w1_def[symmetric])
  qed
qed

lemma assemble_complete:
  assumes "length cs = nat n"
    and "\<forall>i < nat n. files w (path_join dir (chunk_name (int i))) = Some (cs ! i)"
  shows "assemble dir n w
     = (None, w\<lparr>files := (files w)(path_join dir ''combined.zip'' \<mapsto> concat cs),
                log := log w @ [Write (path_join dir ''combined.zip'')]\<rparr>)"
proof -
  define cp where "cp = path_join dir ''combined.zip''"
  define w0 where "w0 = write_file cp [] w"
  have ne: "\<forall>i \<in> set [0..<nat n]. path_join dir (chunk_name (int i)) \<noteq> cp"
    using chunk_not_combined by (simp add: cp_def)
  have ex: "\<forall>i \<in> set [0..<nat n]. files w0 (path_join dir (chunk_name (int i))) = Some (cs ! i)"
    using assms(2) ne by (simp add: w0_def write_file_def)
  have "files w0 cp = Some []" by (simp add: w0_def write_file_def)
  from assemble_loop_complete[OF ex ne this]
  have "assemble_loop dir cp [0..<nat n] w0
      = (None, w0\<lparr>files := (files w0)(cp \<mapsto> concat (map ((!) cs) [0..<nat n]))\<rparr>)" by simp
  moreover have "map ((!) cs) [0..<nat n] = cs"
    using assms(1) by (metis map_nth)
  ultimately show ?thesis
    unfolding assemble_def Let_def cp_def[symmetric] w0_def[symmetric]
    by (simp add: w0_def write_file_def)
qed

lemma assemble_missing:
  assumes "\<exists>i < nat n. files w (path_join dir (chunk_name (int i))) = None"
  shows "\<exists>i < nat n. \<exists>w'. assemble dir n w
        = (Some (FileNotFoundError (path_join dir (chunk_name (int i)))), w')
      \<and> files w (path_join dir (chunk_name (int i))) = None
      \<and> OPERATIONS w' = OPERATIONS w \<and> reclaim w' = reclaim w
      \<and> log w' = log w @ [Write (path_join dir ''combined.zip'')]
      \<and> (\<forall>q. q \<noteq> path_join dir ''combined.zip'' \<longrightarrow> files w' q = files w q)"
proof -
  define cp where "cp = path_join dir ''combined.zip''"
  define w0 where "w0 = write_file cp [] w"
  have ne: "\<forall>i \<in> set [0..<nat n]. path_join dir (chunk_name (int i)) \<noteq> cp"
    using chunk_not_combined by (simp add: cp_def)
  have fr: "\<And>q. q \<noteq> cp \<Longrightarrow> files w0 q = files w q" "OPERATIONS w0 = OPERATIONS w"
    "reclaim w0 = reclaim w" "log w0 = log w @ [Write cp]"
    by (simp_all add: w0_def write_file_def)
  have "\<exists>i \<in> set [0..<nat n]. files w0 (path_join dir (chunk_name (int i))) = None"
    using assms ne fr(1) by auto
  from assemble_loop_missing[OF this ne]
  obtain i w' where i: "i \<in> set [0..<nat n]"
    "assemble_loop dir cp [0..<nat n] w0 = (Some (FileNotFoundError (path_join dir (chunk_name (int i)))), w')"
    "files w0 (path_join dir (chunk_name (int i))) = None"
    "OPERATIONS w' = OPERATIONS w0" "log w' = log w0" "reclaim w' = reclaim w0"
    "\<forall>q. q \<noteq> cp \<longrightarrow> files w' q = files w0 q" by blast
  have "files w (path_join dir (chunk_name (int i))) = None" using i(1,3) ne fr(1) by auto
  then show ?thesis using i fr
    unfolding assemble_def Let_def cp_def[symmetric] w0_def[symmetric]
    by (intro exI[of _ i]) auto
qed

subsection \<open>Verification and the handler's try block\<close>

lemma perform_restore_replies:
  assumes "OPERATIONS w oid = Some r"
  shows "\<exists>kvs code w'. perform_restore E zip_path oid w = (Reply kvs code, w')
     \<and> (\<exists>v rest. kvs = (''error'', v) # rest \<and> v \<noteq> JStr ''Checksum verification failed''
          \<or> kvs = (''success'', JBool True) # rest)
     \<and> OPERATIONS w' oid \<noteq> None"
proof -
  define w1 where "w1 = update_op oid (\<lambda>r. r\<lparr>op_status := restoring\<rparr>) w"
  have o1: "OPERATIONS w1 oid = Some (r\<lparr>op_status := restoring\<rparr>)"
    using assms by (simp add: w1_def update_op_same)
  show ?thesis
  proof (cases "case files w1 zip_path of None \<Rightarrow> False | Some c \<Rightarrow> is_zipfile E c")
    case False
    then show ?thesis using assms o1 unfolding perform_restore_def w1_def
      by (simp add: Let_def mark_failed_same)
  next
    case True
    define w2 where "w2 = backup_current_databases E w1"
    obtain res w3 where ex: "extract_databases E zip_path w2 = (res, w3)" by force
    have "OPERATIONS w3 = OPERATIONS w2" using extract_databases_frame(1)[of E zip_path w2] ex by simp
    then have o3: "OPERATIONS w3 oid = Some (r\<lparr>op_status := restoring\<rparr>)"
      using o1 by (simp add: w2_def backup_current_databases_def)
    show ?thesis
    proof (cases res)
      case (Inl e)
      then show ?thesis using assms True ex o3 unfolding perform_restore_def w2_def w1_def
        by (simp add: Let_def update_op_same)
    next
      case (Inr restored)
      then show ?thesis using assms True ex o3 unfolding perform_restore_def w2_def w1_def
        by (simp add: Let_def update_op_same mark_failed_same)
    qed
  qed
qed

lemma perform_restore_files:
  assumes "q \<notin> set DATABASE_PATHS"
    and "q \<notin> (\<lambda>p. p @ ''.'' @ timestamp E @ ''.bak'') ` set DATABASE_PATHS"
  shows "files (snd (perform_restore E zip_path oid w)) q = files w q"
proof -
  obtain reply w' where pr: "perform_restore E zip_path oid w = (reply, w')" by force
  from perform_restore_trace[OF pr] assms
  have "files w' q = files w q"
    by (auto simp: backup_current_databases_def backup_loop_files)
  then show ?thesis using pr by simp
qed

lemma extract_databases_registry:
  "extract_databases E zip_path w = (res, w') \<Longrightarrow> OPERATIONS w' = OPERATIONS w"
  using extract_databases_frame(1)[of E zip_path w] by simp

lemma perform_restore_registry:
  assumes "k \<noteq> oid"
  shows "OPERATIONS (snd (perform_restore E zip_path oid w)) k = OPERATIONS w k"
proof (cases "OPERATIONS w oid")
  case None
  then show ?thesis by (simp add: perform_restore_def)
next
  case (Some r)
  have m: "\<And>rp w. OPERATIONS (snd (mark_failed oid rp w)) k = OPERATIONS w k"
    using assms by (auto simp: mark_failed_def split: option.splits)
  show ?thesis using Some assms unfolding perform_restore_def
    by (auto simp: Let_def m update_op_other backup_current_databases_def
          split: prod.splits sum.splits dest!: extract_databases_registry)
qed

lemma verify_mismatch:
  assumes "OPERATIONS w uid = Some r" and "files w file_path = Some content"
    and "form_checksum req = Some c" and "c \<noteq> []" and "md5_hexdigest E content \<noteq> c"
  shows "verify_and_restore E req uid file_path w =
     (Inr (Reply [(''error'', JStr ''Checksum verification failed''),
                  (''upload_id'', JStr uid),
                  (''expected'', JStr c),
                  (''calculated'', JStr (md5_hexdigest E content))] 400),
      w\<lparr>OPERATIONS := (OPERATIONS w)(uid \<mapsto> r\<lparr>op_status := failed\<rparr>)\<rparr>)"
  using assms
  by (simp add: verify_and_restore_def calculate_file_checksum_def mark_failed_same Let_def)

lemma verify_proceeds:
  assumes "OPERATIONS w uid = Some r" and "files w file_path = Some content"
    and "form_checksum req = None \<or> form_checksum req = Some []
         \<or> form_checksum req = Some (md5_hexdigest E content)"
  shows "verify_and_restore E req uid file_path w =
     (Inr (fst (perform_restore E file_path uid w)), snd (perform_restore E file_path uid w))"
proof -
  obtain kvs code w' where "perform_restore E file_path uid w = (Reply kvs code, w')"
    using perform_restore_replies[OF assms(1)] by blast
  then show ?thesis using assms(2,3)
    by (auto simp: verify_and_restore_def calculate_file_checksum_def Let_def)
qed

lemma restore_body_single:
  assumes "form_chunk req = None" and "file_backup_file req = Some (fname, data)"
    and "fname \<noteq> []" and "OPERATIONS w uid = Some r"
  shows "restore_body E req uid w =
     verify_and_restore E req uid (path_join (temp_dir r) ''backup.zip'')
       (write_file (path_join (temp_dir r) ''backup.zip'') data w)"
  using assms by (simp add: restore_body_def Let_def)

lemma restore_body_last_chunk:
  assumes "form_chunk req = Some ch" and "py_int ch = Some k"
    and "file_backup_file req = Some (fname, data)" and "fname \<noteq> []"
    and "OPERATIONS w uid = Some r" and "total_chunks r \<le> chunks_received r + 1"
  shows "restore_body E req uid w =
     (case assemble (temp_dir r) (total_chunks r)
             (update_op uid (\<lambda>r. r\<lparr>chunks_received := chunks_received r + 1\<rparr>)
                (write_file (path_join (temp_dir r) (chunk_name k)) data w)) of
        (Some e, w3) \<Rightarrow> (Inl e, w3)
      | (None, w3) \<Rightarrow>
          verify_and_restore E req uid (path_join (temp_dir r) ''combined.zip'') w3)"
  using assms by (simp add: restore_body_def Let_def)

lemma restore_body_more_chunks:
  assumes "form_chunk req = Some ch" and "py_int ch = Some k"
    and "file_backup_file req = Some (fname, data)" and "fname \<noteq> []"
    and "OPERATIONS w uid = Some r" and "chunks_received r + 1 < total_chunks r"
  shows "restore_body E req uid w =
     (Inr (Reply [(''success'', JBool True),
                  (''upload_id'', JStr uid),
                  (''message'', JStr (''Chunk '' @ show_int k @ '' received successfully'')),
                  (''chunks_received'', JInt (chunks_received r + 1)),
                  (''total_chunks'', JInt (total_chunks r))] 200),
      update_op uid (\<lambda>r. r\<lparr>chunks_received := chunks_received r + 1\<rparr>)
        (write_file (path_join (temp_dir r) (chunk_name k)) data w))"
  using assms by (simp add: restore_body_def Let_def)

lemma verify_and_restore_files:
  assumes "q \<notin> set DATABASE_PATHS"
    and "q \<notin> (\<lambda>p. p @ ''.'' @ timestamp E @ ''.bak'') ` set DATABASE_PATHS"
  shows "files (snd (verify_and_restore E req uid file_path w)) q = files w q"
proof -
  have p: "files (snd (case perform_restore E file_path uid w of
                       (Unhandled e, w') \<Rightarrow> (Inl e, w')
                     | (reply, w') \<Rightarrow> (Inr reply, w'))) q = files w q"
    using perform_restore_files[OF assms, of file_path uid w]
    by (auto split: prod.splits restore_reply.splits)
  have m: "\<And>rp. files (snd (case mark_failed uid rp w of
                               (Unhandled e, w') \<Rightarrow> (Inl e, w')
                             | (reply, w') \<Rightarrow> (Inr reply, w'))) q = files w q"
    by (auto split: prod.splits restore_reply.splits dest: mark_failedD)
  show ?thesis unfolding verify_and_restore_def Let_def
    using p m by (auto split: option.splits sum.splits)
qed

lemma restore_try_files:
  "files (snd (restore_try E req uid w)) q = files (snd (restore_body E req uid w)) q"
  unfolding restore_try_def
  by (auto split: prod.splits sum.splits py_exception.splits dest: mark_failedD)

lemma restore_try_reply:
  "restore_body E req uid w = (Inr reply, w') \<Longrightarrow> restore_try E req uid w = (reply, w')"
  by (simp add: restore_try_def)

lemma restore_try_not_found:
  "restore_body E req uid w = (Inl (FileNotFoundError p), w') \<Longrightarrow>
   restore_try E req uid w =
     mark_failed uid (Reply [(''error'', JExc ''Restore failed: '' (FileNotFoundError p)),
                             (''upload_id'', JStr uid)] 500) w'"
  by (simp add: restore_try_def)

text \<open>
  C7, as amended. A chunk arrives for a registered operation and brings the received
  count to \<open>total_chunks\<close> or beyond; \<open>w1\<close> is the world once the chunk is saved. What
  decides is the staging directory, not the chunks that this registration has accepted.
  If the chunk files of all indices \<open>0 .. total_chunks - 1\<close> are there, the combined file
  is their concatenation in index order, the request goes on to verification with it,
  and it is still that when the request ends. If the chunk file of some index in that
  range is not there, the request fails: the reply is the 500 error carrying the
  \<^verbatim>\<open>FileNotFoundError\<close> of a missing chunk file, the operation is marked failed, nothing
  but the chunk and the combined file is written, and no database file changes.
\<close>

theorem assemble_on_last_chunk:
  assumes "form_chunk req = Some ch" and "py_int ch = Some k"
    and "file_backup_file req = Some (fname, data)" and "fname \<noteq> []"
    and "OPERATIONS w uid = Some r" and "total_chunks r \<le> chunks_received r + 1"
    and "w1 = write_file (path_join (temp_dir r) (chunk_name k)) data w"
    and "n = nat (total_chunks r)"
  shows "(\<forall>cs. length cs = n
            \<and> (\<forall>i < n. files w1 (path_join (temp_dir r) (chunk_name (int i))) = Some (cs ! i)) \<longrightarrow>
          (\<exists>w3. restore_body E req uid w
                  = verify_and_restore E req uid (path_join (temp_dir r) ''combined.zip'') w3
             \<and> files w3 (path_join (temp_dir r) ''combined.zip'') = Some (concat cs))
          \<and> files (snd (restore_try E req uid w)) (path_join (temp_dir r) ''combined.zip'')
              = Some (concat cs))
     \<and> ((\<exists>i < n. files w1 (path_join (temp_dir r) (chunk_name (int i))) = None) \<longrightarrow>
          (\<exists>i < n. \<exists>w'. files w1 (path_join (temp_dir r) (chunk_name (int i))) = None
             \<and> restore_try E req uid w =
                 (Reply [(''error'', JExc ''Restore failed: ''
                            (FileNotFoundError (path_join (temp_dir r) (chunk_name (int i))))),
                         (''upload_id'', JStr uid)] 500, w')
             \<and> OPERATIONS w' uid
                 = Some (r\<lparr>chunks_received := chunks_received r + 1, op_status := failed\<rparr>)
             \<and> log w' = log w @ [Write (path_join (temp_dir r) (chunk_name k)),
                                  Write (path_join (temp_dir r) ''combined.zip'')]
             \<and> (\<forall>p \<in> set DATABASE_PATHS. files w' p = files w p)))"
proof -
  define cp where "cp = path_join (temp_dir r) ''combined.zip''"
  define w2 where "w2 = update_op uid (\<lambda>r. r\<lparr>chunks_received := chunks_received r + 1\<rparr>) w1"
  have body: "restore_body E req uid w =
     (case assemble (temp_dir r) (total_chunks r) w2 of
        (Some e, w3) \<Rightarrow> (Inl e, w3)
      | (None, w3) \<Rightarrow> verify_and_restore E req uid cp w3)"
    unfolding w2_def assms(7) cp_def by (rule restore_body_last_chunk[OF assms(1-6)])
  have f2: "files w2 = files w1" by (simp add: w2_def)
  have o1: "OPERATIONS w1 uid = Some r" using assms(5,7) by (simp add: write_file_def)
  have o2: "OPERATIONS w2 uid = Some (r\<lparr>chunks_received := chunks_received r + 1\<rparr>)"
    using o1 by (simp add: w2_def update_op_same)
  have l2: "log w2 = log w @ [Write (path_join (temp_dir r) (chunk_name k))]"
    using assms(7) by (simp add: w2_def write_file_def)
  have cpq: "cp \<notin> set DATABASE_PATHS"
    "cp \<notin> (\<lambda>p. p @ ''.'' @ timestamp E @ ''.bak'') ` set DATABASE_PATHS"
    using staged_not_database(2) staged_not_bak(2) by (auto simp: cp_def)
  have A: "(\<exists>w3. restore_body E req uid w = verify_and_restore E req uid cp w3
             \<and> files w3 cp = Some (concat cs))
          \<and> files (snd (restore_try E req uid w)) cp = Some (concat cs)"
    if len: "length cs = n"
      and all: "\<forall>i < n. files w1 (path_join (temp_dir r) (chunk_name (int i))) = Some (cs ! i)"
    for cs
  proof -
    define w3 where "w3 = w2\<lparr>files := (files w2)(cp \<mapsto> concat cs), log := log w2 @ [Write cp]\<rparr>"
    have "assemble (temp_dir r) (total_chunks r) w2 = (None, w3)"
      unfolding w3_def cp_def
      using assemble_complete[of cs "total_chunks r" w2 "temp_dir r"] len all f2 assms(8) by simp
    then have b: "restore_body E req uid w = verify_and_restore E req uid cp w3"
      using body by simp
    have c3: "files w3 cp = Some (concat cs)" by (simp add: w3_def)
    have "files (snd (restore_try E req uid w)) cp = files (snd (verify_and_restore E req uid cp w3)) cp"
      using b by (simp add: restore_try_files)
    also have "\<dots> = files w3 cp" by (rule verify_and_restore_files[OF cpq])
    finally show ?thesis using b c3 by auto
  qed
  have B: "\<exists>i < n. \<exists>w'. files w1 (path_join (temp_dir r) (chunk_name (int i))) = None
             \<and> restore_try E req uid w =
                 (Reply [(''error'', JExc ''Restore failed: ''
                            (FileNotFoundError (path_join (temp_dir r) (chunk_name (int i))))),
                         (''upload_id'', JStr uid)] 500, w')
             \<and> OPERATIONS w' uid
                 = Some (r\<lparr>chunks_received := chunks_received r + 1, op_status := failed\<rparr>)
             \<and> log w' = log w @ [Write (path_join (temp_dir r) (chunk_name k)), Write cp]
             \<and> (\<forall>p \<in> set DATABASE_PATHS. files w' p = files w p)"
    if miss: "\<exists>i < n. files w1 (path_join (temp_dir r) (chunk_name (int i))) = None"
  proof -
    have "\<exists>i < nat (total_chunks r). files w2 (path_join (temp_dir r) (chunk_name (int i))) = None"
      using miss f2 assms(8) by simp
    from assemble_missing[OF this]
    obtain i w3 where i: "i < n"
      "assemble (temp_dir r) (total_chunks r) w2
         = (Some (FileNotFoundError (path_join (temp_dir r) (chunk_name (int i)))), w3)"
      "files w2 (path_join (temp_dir r) (chunk_name (int i))) = None"
      "OPERATIONS w3 = OPERATIONS w2" "reclaim w3 = reclaim w2"
      "log w3 = log w2 @ [Write cp]"
      "\<forall>q. q \<noteq> cp \<longrightarrow> files w3 q = files w2 q"
      unfolding cp_def assms(8) by blast
    have b: "restore_body E req uid w
        = (Inl (FileNotFoundError (path_join (temp_dir r) (chunk_name (int i)))), w3)"
      using body i(2) by simp
    have o3: "OPERATIONS w3 uid = Some (r\<lparr>chunks_received := chunks_received r + 1\<rparr>)"
      using i(4) o2 by simp
    define w' where "w' = w3\<lparr>OPERATIONS := (OPERATIONS w3)(uid \<mapsto>
                              r\<lparr>chunks_received := chunks_received r + 1, op_status := failed\<rparr>)\<rparr>"
    have t: "restore_try E req uid w =
          (Reply [(''error'', JExc ''Restore failed: ''
                            (FileNotFoundError (path_join (temp_dir r) (chunk_name (int i))))),
                  (''upload_id'', JStr uid)] 500, w')"
      unfolding restore_try_not_found[OF b] mark_failed_same[OF o3] w'_def by simp
    have db: "\<forall>p \<in> set DATABASE_PATHS. files w' p = files w p"
    proof
      fix p assume p: "p \<in> set DATABASE_PATHS"
      then have "p \<noteq> cp" "p \<noteq> path_join (temp_dir r) (chunk_name k)"
        using cpq(1) staged_not_database(1) by auto
      then show "files w' p = files w p"
        using i(7) f2 assms(7) by (simp add: w'_def write_file_def)
    qed
    show ?thesis
      using i(1,3) t db i(6) l2 f2 by (intro exI[of _ i] exI[of _ w'] conjI) (simp_all add: w'_def)
  qed
  from A B show ?thesis unfolding cp_def by blast
qed

lemma verify_rejects_iff:
  assumes "OPERATIONS w uid = Some r" and "files w file_path = Some content"
  shows "(\<exists>x y z. fst (verify_and_restore E req uid file_path w)
            = Inr (Reply [(''error'', JStr ''Checksum verification failed''),
                          (''upload_id'', JStr x), (''expected'', JStr y),
                          (''calculated'', JStr z)] 400))
     \<longleftrightarrow> (\<exists>c. form_checksum req = Some c \<and> c \<noteq> [] \<and> c \<noteq> md5_hexdigest E content)"
proof (cases "\<exists>c. form_checksum req = Some c \<and> c \<noteq> [] \<and> c \<noteq> md5_hexdigest E content")
  case True
  then obtain c where c: "form_checksum req = Some c" "c \<noteq> []" "md5_hexdigest E content \<noteq> c"
    by auto
  show ?thesis using True verify_mismatch[OF assms c] by simp
next
  case False
  then have "form_checksum req = None \<or> form_checksum req = Some []
         \<or> form_checksum req = Some (md5_hexdigest E content)"
    by (cases "form_checksum req") auto
  from verify_proceeds[OF assms this]
  have v: "fst (verify_and_restore E req uid file_path w) = Inr (fst (perform_restore E file_path uid w))"
    by simp
  obtain kvs code w' where pr: "perform_restore E file_path uid w = (Reply kvs code, w')"
    "(\<exists>v rest. kvs = (''error'', v) # rest \<and> v \<noteq> JStr ''Checksum verification failed''
          \<or> kvs = (''success'', JBool True) # rest)"
    using perform_restore_replies[OF assms(1)] by blast
  have "\<not> (\<exists>x y z. fst (verify_and_restore E req uid file_path w)
            = Inr (Reply [(''error'', JStr ''Checksum verification failed''),
                          (''upload_id'', JStr x), (''expected'', JStr y),
                          (''calculated'', JStr z)] 400))"
    unfolding v using pr by auto
  then show ?thesis using False by simp
qed

lemma restore_try_fst:
  "fst (restore_body E req uid w) = Inr reply \<Longrightarrow> fst (restore_try E req uid w) = reply"
  by (cases "restore_body E req uid w") (simp add: restore_try_def)

lemma verify_and_restore_never_raises:
  assumes "OPERATIONS w uid = Some r" and "files w file_path = Some content"
  shows "\<exists>reply. fst (verify_and_restore E req uid file_path w) = Inr reply"
proof (cases "\<exists>c. form_checksum req = Some c \<and> c \<noteq> [] \<and> c \<noteq> md5_hexdigest E content")
  case True
  then obtain c where c: "form_checksum req = Some c" "c \<noteq> []" "md5_hexdigest E content \<noteq> c"
    by auto
  show ?thesis using verify_mismatch[OF assms c] by simp
next
  case False
  then have "form_checksum req = None \<or> form_checksum req = Some []
         \<or> form_checksum req = Some (md5_hexdigest E content)"
    by (cases "form_checksum req") auto
  from verify_proceeds[OF assms this] show ?thesis by simp
qed

lemma restore_try_verify:
  assumes "restore_body E req uid w = verify_and_restore E req uid file_path w3"
    and "OPERATIONS w3 uid = Some r" and "files w3 file_path = Some content"
  shows "restore_try E req uid w
     = (case verify_and_restore E req uid file_path w3 of
          (Inr reply, w') \<Rightarrow> (reply, w') | (Inl e, w') \<Rightarrow> (Unhandled e, w'))
     \<and> (\<exists>reply. fst (verify_and_restore E req uid file_path w3) = Inr reply
                \<and> fst (restore_try E req uid w) = reply)"
proof -
  obtain reply where "fst (verify_and_restore E req uid file_path w3) = Inr reply"
    using verify_and_restore_never_raises[OF assms(2,3)] by blast
  then show ?thesis using assms(1)
    by (cases "verify_and_restore E req uid file_path w3") (auto simp: restore_try_def)
qed

text \<open>The world once the last chunk is saved, counted and the combined file is written.\<close>

lemma last_chunk_assembled:
  assumes "form_chunk req = Some ch" and "py_int ch = Some k"
    and "file_backup_file req = Some (fname, data)" and "fname \<noteq> []"
    and "OPERATIONS w uid = Some r" and "total_chunks r \<le> chunks_received r + 1"
    and "length cs = nat (total_chunks r)"
    and "\<forall>i < nat (total_chunks r).
           files (write_file (path_join (temp_dir r) (chunk_name k)) data w)
             (path_join (temp_dir r) (chunk_name (int i))) = Some (cs ! i)"
    and "w3 = w\<lparr>files := (files w)(path_join (temp_dir r) (chunk_name k) \<mapsto> data,
                               path_join (temp_dir r) ''combined.zip'' \<mapsto> concat cs),
                log := log w @ [Write (path_join (temp_dir r) (chunk_name k)),
                                Write (path_join (temp_dir r) ''combined.zip'')],
                OPERATIONS := (OPERATIONS w)(uid \<mapsto> r\<lparr>chunks_received := chunks_received r + 1\<rparr>)\<rparr>"
  shows "restore_body E req uid w
     = verify_and_restore E req uid (path_join (temp_dir r) ''combined.zip'') w3"
proof -
  define w2 where "w2 = update_op uid (\<lambda>r. r\<lparr>chunks_received := chunks_received r + 1\<rparr>)
                (write_file (path_join (temp_dir r) (chunk_name k)) data w)"
  have f2: "files w2 = files (write_file (path_join (temp_dir r) (chunk_name k)) data w)"
    by (simp add: w2_def)
  have "assemble (temp_dir r) (total_chunks r) w2
      = (None, w2\<lparr>files := (files w2)(path_join (temp_dir r) ''combined.zip'' \<mapsto> concat cs),
                log := log w2 @ [Write (path_join (temp_dir r) ''combined.zip'')]\<rparr>)"
    using assemble_complete[of cs "total_chunks r" w2 "temp_dir r"] assms(7,8) f2 by simp
  moreover have "w2\<lparr>files := (files w2)(path_join (temp_dir r) ''combined.zip'' \<mapsto> concat cs),
                log := log w2 @ [Write (path_join (temp_dir r) ''combined.zip'')]\<rparr> = w3"
    using assms(5) unfolding assms(9) w2_def by (simp add: update_op_def write_file_def)
  ultimately show ?thesis
    using restore_body_last_chunk[OF assms(1-6), of E] unfolding w2_def by simp
qed

text \<open>
  C6, as amended. An upload for a registered operation supplies a checksum that is not
  empty and is not the digest of the received file: the uploaded file of a single-shot
  request, or the combined file of the chunk request that completes the upload. Then the
  reply is the 400 error "Checksum verification failed"; the world after the request is the
  world before it with the received file (and combined file) stored and the operation
  marked failed, so nothing of a restore has run: no snapshot, no extraction, and every
  database file holds what it held.
\<close>

theorem checksum_mismatch_rejected:
  assumes "OPERATIONS w uid = Some r"
    and "file_backup_file req = Some (fname, data)" and "fname \<noteq> []"
    and "form_checksum req = Some c" and "c \<noteq> []"
  shows "(form_chunk req = None \<and> c \<noteq> md5_hexdigest E data \<longrightarrow>
            restore_try E req uid w =
              (Reply [(''error'', JStr ''Checksum verification failed''),
                      (''upload_id'', JStr uid),
                      (''expected'', JStr c),
                      (''calculated'', JStr (md5_hexdigest E data))] 400,
               w\<lparr>files := (files w)(path_join (temp_dir r) ''backup.zip'' \<mapsto> data),
                  log := log w @ [Write (path_join (temp_dir r) ''backup.zip'')],
                  OPERATIONS := (OPERATIONS w)(uid \<mapsto> r\<lparr>op_status := failed\<rparr>)\<rparr>)
            \<and> (\<forall>p \<in> set DATABASE_PATHS. files (snd (restore_try E req uid w)) p = files w p))
     \<and> (\<forall>ch k cs. form_chunk req = Some ch \<and> py_int ch = Some k
            \<and> total_chunks r \<le> chunks_received r + 1
            \<and> length cs = nat (total_chunks r)
            \<and> (\<forall>i < nat (total_chunks r).
                  files (write_file (path_join (temp_dir r) (chunk_name k)) data w)
                    (path_join (temp_dir r) (chunk_name (int i))) = Some (cs ! i))
            \<and> c \<noteq> md5_hexdigest E (concat cs) \<longrightarrow>
            restore_try E req uid w =
              (Reply [(''error'', JStr ''Checksum verification failed''),
                      (''upload_id'', JStr uid),
                      (''expected'', JStr c),
                      (''calculated'', JStr (md5_hexdigest E (concat cs)))] 400,
               w\<lparr>files := (files w)(path_join (temp_dir r) (chunk_name k) \<mapsto> data,
                                     path_join (temp_dir r) ''combined.zip'' \<mapsto> concat cs),
                  log := log w @ [Write (path_join (temp_dir r) (chunk_name k)),
                                  Write (path_join (temp_dir r) ''combined.zip'')],
                  OPERATIONS := (OPERATIONS w)(uid \<mapsto>
                     r\<lparr>chunks_received := chunks_received r + 1, op_status := failed\<rparr>)\<rparr>)
            \<and> (\<forall>p \<in> set DATABASE_PATHS. files (snd (restore_try E req uid w)) p = files w p))"
proof -
  have single: "restore_try E req uid w =
              (Reply [(''error'', JStr ''Checksum verification failed''),
                      (''upload_id'', JStr uid),
                      (''expected'', JStr c),
                      (''calculated'', JStr (md5_hexdigest E data))] 400,
               w\<lparr>files := (files w)(path_join (temp_dir r) ''backup.zip'' \<mapsto> data),
                  log := log w @ [Write (path_join (temp_dir r) ''backup.zip'')],
                  OPERATIONS := (OPERATIONS w)(uid \<mapsto> r\<lparr>op_status := failed\<rparr>)\<rparr>)
            \<and> (\<forall>p \<in> set DATABASE_PATHS. files (snd (restore_try E req uid w)) p = files w p)"
    if nc: "form_chunk req = None" and ne: "c \<noteq> md5_hexdigest E data"
  proof -
    define tp where "tp = path_join (temp_dir r) ''backup.zip''"
    define w1 where "w1 = write_file tp data w"
    have b: "restore_body E req uid w = verify_and_restore E req uid tp w1"
      unfolding tp_def w1_def by (rule restore_body_single[OF nc assms(2,3,1)])
    have o1: "OPERATIONS w1 uid = Some r" and f1: "files w1 tp = Some data"
      using assms(1) by (simp_all add: w1_def write_file_def)
    have ne': "md5_hexdigest E data \<noteq> c" using ne by simp
    have t: "restore_try E req uid w =
              (Reply [(''error'', JStr ''Checksum verification failed''),
                      (''upload_id'', JStr uid),
                      (''expected'', JStr c),
                      (''calculated'', JStr (md5_hexdigest E data))] 400,
               w1\<lparr>OPERATIONS := (OPERATIONS w1)(uid \<mapsto> r\<lparr>op_status := failed\<rparr>)\<rparr>)"
      by (rule restore_try_reply) (simp add: b verify_mismatch[OF o1 f1 assms(4,5) ne'])
    have "tp \<notin> set DATABASE_PATHS" unfolding tp_def by (rule staged_not_database(3))
    then have "\<forall>p \<in> set DATABASE_PATHS. files (snd (restore_try E req uid w)) p = files w p"
      unfolding t by (auto simp: w1_def write_file_def)
    then show ?thesis unfolding t by (simp add: w1_def write_file_def tp_def)
  qed
  have chunked: "restore_try E req uid w =
              (Reply [(''error'', JStr ''Checksum verification failed''),
                      (''upload_id'', JStr uid),
                      (''expected'', JStr c),
                      (''calculated'', JStr (md5_hexdigest E (concat cs)))] 400,
               w\<lparr>files := (files w)(path_join (temp_dir r) (chunk_name k) \<mapsto> data,
                                     path_join (temp_dir r) ''combined.zip'' \<mapsto> concat cs),
                  log := log w @ [Write (path_join (temp_dir r) (chunk_name k)),
                                  Write (path_join (temp_dir r) ''combined.zip'')],
                  OPERATIONS := (OPERATIONS w)(uid \<mapsto>
                     r\<lparr>chunks_received := chunks_received r + 1, op_status := failed\<rparr>)\<rparr>)
            \<and> (\<forall>p \<in> set DATABASE_PATHS. files (snd (restore_try E req uid w)) p = files w p)"
    if h: "form_chunk req = Some ch" "py_int ch = Some k"
      "total_chunks r \<le> chunks_received r + 1" "length cs = nat (total_chunks r)"
      "\<forall>i < nat (total_chunks r).
                  files (write_file (path_join (temp_dir r) (chunk_name k)) data w)
                    (path_join (temp_dir r) (chunk_name (int i))) = Some (cs ! i)"
      "c \<noteq> md5_hexdigest E (concat cs)"
    for ch k cs
  proof -
    define cp where "cp = path_join (temp_dir r) ''combined.zip''"
    define w3 where "w3 = w\<lparr>files := (files w)(path_join (temp_dir r) (chunk_name k) \<mapsto> data,
                               path_join (temp_dir r) ''combined.zip'' \<mapsto> concat cs),
                log := log w @ [Write (path_join (temp_dir r) (chunk_name k)),
                                Write (path_join (temp_dir r) ''combined.zip'')],
                OPERATIONS := (OPERATIONS w)(uid \<mapsto> r\<lparr>chunks_received := chunks_received r + 1\<rparr>)\<rparr>"
    have b: "restore_body E req uid w = verify_and_restore E req uid cp w3"
      unfolding cp_def
      by (rule last_chunk_assembled[OF h(1,2) assms(2,3,1) h(3,4,5) w3_def])
    have o3: "OPERATIONS w3 uid = Some (r\<lparr>chunks_received := chunks_received r + 1\<rparr>)"
      and f3: "files w3 cp = Some (concat cs)"
      by (simp_all add: w3_def cp_def)
    have ne': "md5_hexdigest E (concat cs) \<noteq> c" using h(6) by simp
    have t: "restore_try E req uid w =
              (Reply [(''error'', JStr ''Checksum verification failed''),
                      (''upload_id'', JStr uid),
                      (''expected'', JStr c),
                      (''calculated'', JStr (md5_hexdigest E (concat cs)))] 400,
               w3\<lparr>OPERATIONS := (OPERATIONS w3)(uid \<mapsto>
                     r\<lparr>chunks_received := chunks_received r + 1, op_status := failed\<rparr>)\<rparr>)"
      by (rule restore_try_reply) (simp add: b verify_mismatch[OF o3 f3 assms(4,5) ne'])
    have "\<forall>p \<in> set DATABASE_PATHS. p \<noteq> path_join (temp_dir r) (chunk_name k)
            \<and> p \<noteq> path_join (temp_dir r) ''combined.zip''"
      using staged_not_database(1,2) by blast
    then have "\<forall>p \<in> set DATABASE_PATHS. files (snd (restore_try E req uid w)) p = files w p"
      unfolding t by (auto simp: w3_def)
    then show ?thesis unfolding t by (simp add: w3_def)
  qed
  from single chunked show ?thesis by blast
qed

text \<open>
  C9, as amended. For an upload of a registered operation that reaches verification (a
  single-shot file, or the chunk that completes the upload with every chunk file there):
  when the checksum field is absent or empty the request is exactly the restore of the
  received file, with no verification; and the reply is the checksum error if and only if
  the field is present, not empty, and differs from the digest of the received file.
\<close>

theorem checksum_verified_only_when_given:
  assumes "OPERATIONS w uid = Some r"
    and "file_backup_file req = Some (fname, data)" and "fname \<noteq> []"
  shows "(form_chunk req = None \<longrightarrow>
            ((form_checksum req = None \<or> form_checksum req = Some []) \<longrightarrow>
               restore_try E req uid w =
                 perform_restore E (path_join (temp_dir r) ''backup.zip'') uid
                   (write_file (path_join (temp_dir r) ''backup.zip'') data w))
          \<and> ((\<exists>x y z. fst (restore_try E req uid w)
                  = Reply [(''error'', JStr ''Checksum verification failed''),
                           (''upload_id'', JStr x), (''expected'', JStr y),
                           (''calculated'', JStr z)] 400)
              \<longleftrightarrow> (\<exists>c. form_checksum req = Some c \<and> c \<noteq> [] \<and> c \<noteq> md5_hexdigest E data)))
     \<and> (\<forall>ch k cs w3. form_chunk req = Some ch \<and> py_int ch = Some k
            \<and> total_chunks r \<le> chunks_received r + 1
            \<and> length cs = nat (total_chunks r)
            \<and> (\<forall>i < nat (total_chunks r).
                  files (write_file (path_join (temp_dir r) (chunk_name k)) data w)
                    (path_join (temp_dir r) (chunk_name (int i))) = Some (cs ! i))
            \<and> w3 = w\<lparr>files := (files w)(path_join (temp_dir r) (chunk_name k) \<mapsto> data,
                                         path_join (temp_dir r) ''combined.zip'' \<mapsto> concat cs),
                      log := log w @ [Write (path_join (temp_dir r) (chunk_name k)),
                                      Write (path_join (temp_dir r) ''combined.zip'')],
                      OPERATIONS := (OPERATIONS w)(uid \<mapsto>
                         r\<lparr>chunks_received := chunks_received r + 1\<rparr>)\<rparr> \<longrightarrow>
            ((form_checksum req = None \<or> form_checksum req = Some []) \<longrightarrow>
               restore_try E req uid w =
                 perform_restore E (path_join (temp_dir r) ''combined.zip'') uid w3)
          \<and> ((\<exists>x y z. fst (restore_try E req uid w)
                  = Reply [(''error'', JStr ''Checksum verification failed''),
                           (''upload_id'', JStr x), (''expected'', JStr y),
                           (''calculated'', JStr z)] 400)
              \<longleftrightarrow> (\<exists>c. form_checksum req = Some c \<and> c \<noteq> []
                        \<and> c \<noteq> md5_hexdigest E (concat cs))))"
proof -
  have core: "((form_checksum req = None \<or> form_checksum req = Some []) \<longrightarrow>
               restore_try E req uid w = perform_restore E file_path uid w3)
          \<and> ((\<exists>x y z. fst (restore_try E req uid w)
                  = Reply [(''error'', JStr ''Checksum verification failed''),
                           (''upload_id'', JStr x), (''expected'', JStr y),
                           (''calculated'', JStr z)] 400)
              \<longleftrightarrow> (\<exists>c. form_checksum req = Some c \<and> c \<noteq> [] \<and> c \<noteq> md5_hexdigest E content))"
    if b: "restore_body E req uid w = verify_and_restore E req uid file_path w3"
      and o: "OPERATIONS w3 uid = Some r'" and f: "files w3 file_path = Some content"
    for file_path w3 r' content
  proof -
    from restore_try_verify[OF b o f]
    obtain reply where rp: "fst (verify_and_restore E req uid file_path w3) = Inr reply"
      "fst (restore_try E req uid w) = reply"
      and rt: "restore_try E req uid w
         = (case verify_and_restore E req uid file_path w3 of
              (Inr reply, w') \<Rightarrow> (reply, w') | (Inl e, w') \<Rightarrow> (Unhandled e, w'))"
      by blast
    have 1: "restore_try E req uid w = perform_restore E file_path uid w3"
      if "form_checksum req = None \<or> form_checksum req = Some []"
    proof -
      have "form_checksum req = None \<or> form_checksum req = Some []
         \<or> form_checksum req = Some (md5_hexdigest E content)" using that by auto
      from verify_proceeds[OF o f this] show ?thesis unfolding rt by simp
    qed
    have 2: "(\<exists>x y z. fst (restore_try E req uid w)
                  = Reply [(''error'', JStr ''Checksum verification failed''),
                           (''upload_id'', JStr x), (''expected'', JStr y),
                           (''calculated'', JStr z)] 400)
              \<longleftrightarrow> (\<exists>c. form_checksum req = Some c \<and> c \<noteq> [] \<and> c \<noteq> md5_hexdigest E content)"
      using verify_rejects_iff[OF o f, of E req] rp by simp
    from 1 2 show ?thesis by blast
  qed
  have single: "((form_checksum req = None \<or> form_checksum req = Some []) \<longrightarrow>
               restore_try E req uid w =
                 perform_restore E (path_join (temp_dir r) ''backup.zip'') uid
                   (write_file (path_join (temp_dir r) ''backup.zip'') data w))
          \<and> ((\<exists>x y z. fst (restore_try E req uid w)
                  = Reply [(''error'', JStr ''Checksum verification failed''),
                           (''upload_id'', JStr x), (''expected'', JStr y),
                           (''calculated'', JStr z)] 400)
              \<longleftrightarrow> (\<exists>c. form_checksum req = Some c \<and> c \<noteq> [] \<and> c \<noteq> md5_hexdigest E data))"
    if nc: "form_chunk req = None"
  proof (rule core)
    show "restore_body E req uid w =
        verify_and_restore E req uid (path_join (temp_dir r) ''backup.zip'')
          (write_file (path_join (temp_dir r) ''backup.zip'') data w)"
      by (rule restore_body_single[OF nc assms(2,3,1)])
    show "OPERATIONS (write_file (path_join (temp_dir r) ''backup.zip'') data w) uid = Some r"
      using assms(1) by (simp add: write_file_def)
    show "files (write_file (path_join (temp_dir r) ''backup.zip'') data w)
            (path_join (temp_dir r) ''backup.zip'') = Some data"
      by (simp add: write_file_def)
  qed
  have chunked: "((form_checksum req = None \<or> form_checksum req = Some []) \<longrightarrow>
               restore_try E req uid w =
                 perform_restore E (path_join (temp_dir r) ''combined.zip'') uid w3)
          \<and> ((\<exists>x y z. fst (restore_try E req uid w)
                  = Reply [(''error'', JStr ''Checksum verification failed''),
                           (''upload_id'', JStr x), (''expected'', JStr y),
                           (''calculated'', JStr z)] 400)
              \<longleftrightarrow> (\<exists>c. form_checksum req = Some c \<and> c \<noteq> []
                        \<and> c \<noteq> md5_hexdigest E (concat cs)))"
    if h: "form_chunk req = Some ch" "py_int ch = Some k"
      "total_chunks r \<le> chunks_received r + 1" "length cs = nat (total_chunks r)"
      "\<forall>i < nat (total_chunks r).
                  files (write_file (path_join (temp_dir r) (chunk_name k)) data w)
                    (path_join (temp_dir r) (chunk_name (int i))) = Some (cs ! i)"
      "w3 = w\<lparr>files := (files w)(path_join (temp_dir r) (chunk_name k) \<mapsto> data,
                                         path_join (temp_dir r) ''combined.zip'' \<mapsto> concat cs),
                      log := log w @ [Write (path_join (temp_dir r) (chunk_name k)),
                                      Write (path_join (temp_dir r) ''combined.zip'')],
                      OPERATIONS := (OPERATIONS w)(uid \<mapsto>
                         r\<lparr>chunks_received := chunks_received r + 1\<rparr>)\<rparr>"
    for ch k cs w3
  proof (rule core)
    show "restore_body E req uid w
        = verify_and_restore E req uid (path_join (temp_dir r) ''combined.zip'') w3"
      by (rule last_chunk_assembled[OF h(1,2) assms(2,3,1) h(3,4,5,6)])
    show "OPERATIONS w3 uid = Some (r\<lparr>chunks_received := chunks_received r + 1\<rparr>)"
      by (simp add: h(6))
    show "files w3 (path_join (temp_dir r) ''combined.zip'') = Some (concat cs)"
      by (simp add: h(6))
  qed
  from single chunked show ?thesis by blast
qed

lemma chunk_names: "chunk_name 0 = ''chunk_0''" "chunk_name 1 = ''chunk_1''" "chunk_name 2 = ''chunk_2''"
  by code_simp+

lemma staged_paths:
  "path_join ''temp_uploads/u'' ''chunk_0'' = ''temp_uploads/u/chunk_0''"
  "path_join ''temp_uploads/u'' ''chunk_1'' = ''temp_uploads/u/chunk_1''"
  "path_join ''temp_uploads/u'' ''chunk_2'' = ''temp_uploads/u/chunk_2''"
  "path_join ''temp_uploads/u'' ''combined.zip'' = ''temp_uploads/u/combined.zip''"
  "path_join ''temp_uploads/u'' ''backup.zip'' = ''temp_uploads/u/backup.zip''"
  by (simp_all add: path_join_def)

lemma chunked_world_op: "OPERATIONS chunked_world ''u'' = Some chunked_operation"
  by (simp add: chunked_world_def)

lemma all_less_3: "(\<forall>i < (3::nat). P i) \<longleftrightarrow> P 0 \<and> P 1 \<and> P 2"
proof -
  have "i < 3 \<longleftrightarrow> i = 0 \<or> i = 1 \<or> i = 2" for i :: nat by auto
  then show ?thesis by auto
qed

lemma ex_less_3: "(\<exists>i < (3::nat). P i) \<longleftrightarrow> P 0 \<or> P 1 \<or> P 2"
proof -
  have "i < 3 \<longleftrightarrow> i = 0 \<or> i = 1 \<or> i = 2" for i :: nat by auto
  then show ?thesis by auto
qed

theorem assemble_on_last_chunk_witness:
  "files (snd (restore_try toy_env (chunk_form ''2'' None ''XY|'') ''u'' chunked_world))
       ''temp_uploads/u/combined.zip'' = Some ''PKbooks_data.db:XY|''
   \<and> (\<exists>i < 3. \<exists>w'.
         files (write_file ''temp_uploads/u/chunk_1'' ''data.db:'' chunked_world)
           (path_join ''temp_uploads/u'' (chunk_name (int i))) = None
         \<and> restore_try toy_env (chunk_form ''1'' None ''data.db:'') ''u'' chunked_world =
              (Reply [(''error'', JExc ''Restore failed: ''
                         (FileNotFoundError (path_join ''temp_uploads/u'' (chunk_name (int i))))),
                      (''upload_id'', JStr ''u'')] 500, w')
         \<and> OPERATIONS w' ''u'' = Some (chunked_operation\<lparr>chunks_received := 3, op_status := failed\<rparr>)
         \<and> log w' = [Write ''temp_uploads/u/chunk_1'', Write ''temp_uploads/u/combined.zip'']
         \<and> (\<forall>p \<in> set DATABASE_PATHS. files w' p = files chunked_world p))"
proof -
  have i2: "py_int ''2'' = Some 2" and i1: "py_int ''1'' = Some 1" by code_simp+
  have tc: "total_chunks chunked_operation \<le> chunks_received chunked_operation + 1"
    and td: "temp_dir chunked_operation = ''temp_uploads/u''"
    and n: "3 = nat (total_chunks chunked_operation)"
    by (simp_all add: chunked_operation_def)
  have f: "form_chunk (chunk_form ''2'' None ''XY|'') = Some ''2''"
    "file_backup_file (chunk_form ''2'' None ''XY|'') = Some (''blob'', ''XY|'')"
    "form_chunk (chunk_form ''1'' None ''data.db:'') = Some ''1''"
    "file_backup_file (chunk_form ''1'' None ''data.db:'') = Some (''blob'', ''data.db:'')"
    "''blob'' \<noteq> []"
    by (simp_all add: chunk_form_def)
  note T2 = assemble_on_last_chunk [OF f(1) i2 f(2) f(5) chunked_world_op tc refl n, of toy_env]
  note T1 = assemble_on_last_chunk [OF f(3) i1 f(4) f(5) chunked_world_op tc refl n, of toy_env]
  have all: "length [''PKbooks_'', ''data.db:'', ''XY|''] = 3
      \<and> (\<forall>i < 3. files (write_file (path_join (temp_dir chunked_operation) (chunk_name 2)) ''XY|'' chunked_world)
            (path_join (temp_dir chunked_operation) (chunk_name (int i)))
          = Some ([''PKbooks_'', ''data.db:'', ''XY|''] ! i))"
    by (simp add: all_less_3 td chunk_names staged_paths write_file_def chunked_world_def)
  have A: "files (snd (restore_try toy_env (chunk_form ''2'' None ''XY|'') ''u'' chunked_world))
       ''temp_uploads/u/combined.zip'' = Some ''PKbooks_data.db:XY|''"
    using T2 [THEN conjunct1, rule_format, OF all] by (simp add: td staged_paths)
  have miss: "\<exists>i < 3. files (write_file (path_join (temp_dir chunked_operation) (chunk_name 1)) ''data.db:'' chunked_world)
            (path_join (temp_dir chunked_operation) (chunk_name (int i))) = None"
    by (simp add: ex_less_3 td chunk_names staged_paths write_file_def chunked_world_def toy_world_def)
  have B: "\<exists>i < 3. \<exists>w'.
         files (write_file ''temp_uploads/u/chunk_1'' ''data.db:'' chunked_world)
           (path_join ''temp_uploads/u'' (chunk_name (int i))) = None
         \<and> restore_try toy_env (chunk_form ''1'' None ''data.db:'') ''u'' chunked_world =
              (Reply [(''error'', JExc ''Restore failed: ''
                         (FileNotFoundError (path_join ''temp_uploads/u'' (chunk_name (int i))))),
                      (''upload_id'', JStr ''u'')] 500, w')
         \<and> OPERATIONS w' ''u'' = Some (chunked_operation\<lparr>chunks_received := 3, op_status := failed\<rparr>)
         \<and> log w' = [Write ''temp_uploads/u/chunk_1'', Write ''temp_uploads/u/combined.zip'']
         \<and> (\<forall>p \<in> set DATABASE_PATHS. files w' p = files chunked_world p)"
    using T1 [THEN conjunct2, rule_format, OF miss]
    by (simp add: td staged_paths chunk_names chunked_operation_def chunked_world_def toy_world_def)
  from A B show ?thesis by (rule conjI)
qed

text \<open>An upload of three chunks stops after the chunks 0 and 2. A second upload under the
  same upload id delivers the indices 0, 1 and 1: index 2 is never accepted, the count
  is reached, and the assembly takes the chunk 2 that the first upload left in the
  staging directory. The request succeeds and the database file holds the old bytes.\<close>

theorem stale_chunk_counterexample:
  "fst (deliver toy_env (map (chunk_request ''u'' 3 None stale_chunks) [0, 2]
                          @ map (chunk_request ''u'' 3 None toy_chunks) [0, 1, 1]) toy_world) ! 4
     = Reply [(''success'', JBool True),
              (''message'', JStr ''Database restore completed successfully''),
              (''restored_files'', JList [''database/books_data.db'']),
              (''upload_id'', JStr ''u'')] 200
   \<and> files (snd (deliver toy_env (map (chunk_request ''u'' 3 None stale_chunks) [0, 2]
                          @ map (chunk_request ''u'' 3 None toy_chunks) [0, 1, 1]) toy_world))
       ''temp_uploads/u/combined.zip'' = Some ''PKbooks_data.db:OLD|''
   \<and> files (snd (deliver toy_env (map (chunk_request ''u'' 3 None stale_chunks) [0, 2]
                          @ map (chunk_request ''u'' 3 None toy_chunks) [0, 1, 1]) toy_world))
       ''database/books_data.db'' = Some ''OLD''"
  by code_simp

lemma registered_world_op: "OPERATIONS registered_world ''u'' = Some staged_operation"
  by (simp add: registered_world_def)

lemma toy_digests:
  "md5_hexdigest toy_env ''PKbooks_data.db:XY|'' = ''1805''"
  by code_simp

theorem checksum_mismatch_rejected_witness:
  "restore_try toy_env (single_form (Some ''1'') ''PKbooks_data.db:XY|'') ''u'' registered_world =
     (Reply [(''error'', JStr ''Checksum verification failed''),
             (''upload_id'', JStr ''u''),
             (''expected'', JStr ''1''),
             (''calculated'', JStr ''1805'')] 400,
      registered_world\<lparr>files := (files registered_world)
                           (''temp_uploads/u/backup.zip'' \<mapsto> ''PKbooks_data.db:XY|''),
         log := log registered_world @ [Write ''temp_uploads/u/backup.zip''],
         OPERATIONS := (OPERATIONS registered_world)(''u'' \<mapsto> staged_operation\<lparr>op_status := failed\<rparr>)\<rparr>)
   \<and> files (snd (restore_try toy_env (single_form (Some ''1'') ''PKbooks_data.db:XY|'') ''u''
                    registered_world)) ''database/books_data.db''
       = files registered_world ''database/books_data.db''
   \<and> files (snd (restore_try toy_env (single_form (Some ''1'') ''PKbooks_data.db:XY|'') ''u''
                    registered_world)) ''database/books_static.db''
       = files registered_world ''database/books_static.db''
   \<and> restore_try toy_env (chunk_form ''2'' (Some ''1'') ''XY|'') ''u'' chunked_world =
     (Reply [(''error'', JStr ''Checksum verification failed''),
             (''upload_id'', JStr ''u''),
             (''expected'', JStr ''1''),
             (''calculated'', JStr ''1805'')] 400,
      chunked_world\<lparr>files := (files chunked_world)
                           (''temp_uploads/u/chunk_2'' \<mapsto> ''XY|'',
                            ''temp_uploads/u/combined.zip'' \<mapsto> ''PKbooks_data.db:XY|''),
         log := log chunked_world @ [Write ''temp_uploads/u/chunk_2'', Write ''temp_uploads/u/combined.zip''],
         OPERATIONS := (OPERATIONS chunked_world)(''u'' \<mapsto>
            chunked_operation\<lparr>chunks_received := 3, op_status := failed\<rparr>)\<rparr>)
   \<and> files (snd (restore_try toy_env (chunk_form ''2'' (Some ''1'') ''XY|'') ''u'' chunked_world))
         ''database/books_data.db'' = files chunked_world ''database/books_data.db''
   \<and> files (snd (restore_try toy_env (chunk_form ''2'' (Some ''1'') ''XY|'') ''u'' chunked_world))
         ''database/books_static.db'' = files chunked_world ''database/books_static.db''"
proof -
  have i2: "py_int ''2'' = Some 2" by code_simp
  have td: "temp_dir chunked_operation = ''temp_uploads/u''" "temp_dir staged_operation = ''temp_uploads/u''"
    by (simp_all add: chunked_operation_def staged_operation_def)
  have cr: "chunks_received chunked_operation + 1 = 3" by (simp add: chunked_operation_def)
  have cc: "concat [''PKbooks_'', ''data.db:'', ''XY|''] = ''PKbooks_data.db:XY|''" by simp
  have f: "file_backup_file (single_form (Some ''1'') ''PKbooks_data.db:XY|'')
             = Some (''backup.zip'', ''PKbooks_data.db:XY|'')"
    "form_checksum (single_form (Some ''1'') ''PKbooks_data.db:XY|'') = Some ''1''"
    "file_backup_file (chunk_form ''2'' (Some ''1'') ''XY|'') = Some (''blob'', ''XY|'')"
    "form_checksum (chunk_form ''2'' (Some ''1'') ''XY|'') = Some ''1''"
    "''backup.zip'' \<noteq> []" "''blob'' \<noteq> []" "''1'' \<noteq> []"
    by (simp_all add: single_form_def chunk_form_def)
  have S: "form_chunk (single_form (Some ''1'') ''PKbooks_data.db:XY|'') = None
      \<and> ''1'' \<noteq> md5_hexdigest toy_env ''PKbooks_data.db:XY|''"
    by (simp add: single_form_def toy_digests)
  have C: "form_chunk (chunk_form ''2'' (Some ''1'') ''XY|'') = Some ''2'' \<and> py_int ''2'' = Some 2
            \<and> total_chunks chunked_operation \<le> chunks_received chunked_operation + 1
            \<and> length [''PKbooks_'', ''data.db:'', ''XY|''] = nat (total_chunks chunked_operation)
            \<and> (\<forall>i < nat (total_chunks chunked_operation).
                  files (write_file (path_join (temp_dir chunked_operation) (chunk_name 2)) ''XY|'' chunked_world)
                    (path_join (temp_dir chunked_operation) (chunk_name (int i)))
                  = Some ([''PKbooks_'', ''data.db:'', ''XY|''] ! i))
            \<and> ''1'' \<noteq> md5_hexdigest toy_env (concat [''PKbooks_'', ''data.db:'', ''XY|''])"
    by (simp add: i2 chunk_form_def chunked_operation_def all_less_3 chunk_names staged_paths
          write_file_def chunked_world_def toy_digests)
  note A = checksum_mismatch_rejected [OF registered_world_op f(1) f(5) f(2) f(7), of toy_env,
      THEN conjunct1, rule_format, OF S, unfolded td staged_paths toy_digests]
  note B = checksum_mismatch_rejected [OF chunked_world_op f(3) f(6) f(4) f(7), of toy_env,
      THEN conjunct2, rule_format, OF C, unfolded td chunk_names staged_paths cc toy_digests cr]
  have db: "(\<forall>p \<in> set DATABASE_PATHS. P p)
      \<longleftrightarrow> P ''database/books_data.db'' \<and> P ''database/books_static.db''" for P
    by (simp add: DATABASE_PATHS_def)
  from A B show ?thesis unfolding db by blast
qed

theorem empty_checksum_counterexample:
  "form_checksum (single_form (Some '''') ''PKbooks_data.db:XY|'') = Some ''''
   \<and> md5_hexdigest toy_env ''PKbooks_data.db:XY|'' = ''1805''
   \<and> fst (restore_database toy_env (single_form (Some '''') ''PKbooks_data.db:XY|'') toy_world)
       = Reply [(''success'', JBool True),
                (''message'', JStr ''Database restore completed successfully''),
                (''restored_files'', JList [''database/books_data.db'']),
                (''upload_id'', JStr ''u'')] 200
   \<and> files toy_world ''database/books_data.db'' = Some ''AAAA''
   \<and> files (snd (restore_database toy_env (single_form (Some '''') ''PKbooks_data.db:XY|'') toy_world))
        ''database/books_data.db'' = Some ''XY''"
  by code_simp

theorem checksum_verified_only_when_given_witness:
  "restore_try toy_env (single_form None ''PKbooks_data.db:XY|'') ''u'' registered_world =
     perform_restore toy_env ''temp_uploads/u/backup.zip'' ''u''
       (write_file ''temp_uploads/u/backup.zip'' ''PKbooks_data.db:XY|'' registered_world)
   \<and> ((\<exists>x y z. fst (restore_try toy_env (single_form (Some ''1'') ''PKbooks_data.db:XY|'') ''u''
                        registered_world)
            = Reply [(''error'', JStr ''Checksum verification failed''),
                     (''upload_id'', JStr x), (''expected'', JStr y),
                     (''calculated'', JStr z)] 400)
        \<longleftrightarrow> (\<exists>c. form_checksum (single_form (Some ''1'') ''PKbooks_data.db:XY|'') = Some c
                  \<and> c \<noteq> [] \<and> c \<noteq> ''1805''))
   \<and> restore_try toy_env (chunk_form ''2'' (Some '''') ''XY|'') ''u'' chunked_world =
       perform_restore toy_env ''temp_uploads/u/combined.zip'' ''u''
         (chunked_world\<lparr>files := (files chunked_world)
                           (''temp_uploads/u/chunk_2'' \<mapsto> ''XY|'',
                            ''temp_uploads/u/combined.zip'' \<mapsto> ''PKbooks_data.db:XY|''),
            log := log chunked_world @ [Write ''temp_uploads/u/chunk_2'', Write ''temp_uploads/u/combined.zip''],
            OPERATIONS := (OPERATIONS chunked_world)(''u'' \<mapsto>
               chunked_operation\<lparr>chunks_received := 3\<rparr>)\<rparr>)"
proof -
  have td: "temp_dir chunked_operation = ''temp_uploads/u''" "temp_dir staged_operation = ''temp_uploads/u''"
    by (simp_all add: chunked_operation_def staged_operation_def)
  have cr: "chunks_received chunked_operation + 1 = 3" by (simp add: chunked_operation_def)
  have cc: "concat [''PKbooks_'', ''data.db:'', ''XY|''] = ''PKbooks_data.db:XY|''" by simp
  have f: "file_backup_file (single_form None ''PKbooks_data.db:XY|'')
             = Some (''backup.zip'', ''PKbooks_data.db:XY|'')"
    "file_backup_file (single_form (Some ''1'') ''PKbooks_data.db:XY|'')
             = Some (''backup.zip'', ''PKbooks_data.db:XY|'')"
    "file_backup_file (chunk_form ''2'' (Some '''') ''XY|'') = Some (''blob'', ''XY|'')"
    "''backup.zip'' \<noteq> []" "''blob'' \<noteq> []"
    "form_chunk (single_form None ''PKbooks_data.db:XY|'') = None"
    "form_chunk (single_form (Some ''1'') ''PKbooks_data.db:XY|'') = None"
    "form_checksum (single_form None ''PKbooks_data.db:XY|'') = None
       \<or> form_checksum (single_form None ''PKbooks_data.db:XY|'') = Some []"
    "form_checksum (chunk_form ''2'' (Some '''') ''XY|'') = None
       \<or> form_checksum (chunk_form ''2'' (Some '''') ''XY|'') = Some []"
    by (simp_all add: single_form_def chunk_form_def)
  have C: "form_chunk (chunk_form ''2'' (Some '''') ''XY|'') = Some ''2'' \<and> py_int ''2'' = Some 2
            \<and> total_chunks chunked_operation \<le> chunks_received chunked_operation + 1
            \<and> length [''PKbooks_'', ''data.db:'', ''XY|''] = nat (total_chunks chunked_operation)
            \<and> (\<forall>i < nat (total_chunks chunked_operation).
                  files (write_file (path_join (temp_dir chunked_operation) (chunk_name 2)) ''XY|'' chunked_world)
                    (path_join (temp_dir chunked_operation) (chunk_name (int i)))
                  = Some ([''PKbooks_'', ''data.db:'', ''XY|''] ! i))
            \<and> chunked_world\<lparr>files := (files chunked_world)
                           (''temp_uploads/u/chunk_2'' \<mapsto> ''XY|'',
                            ''temp_uploads/u/combined.zip'' \<mapsto> ''PKbooks_data.db:XY|''),
                  log := log chunked_world @ [Write ''temp_uploads/u/chunk_2'', Write ''temp_uploads/u/combined.zip''],
                  OPERATIONS := (OPERATIONS chunked_world)(''u'' \<mapsto>
                     chunked_operation\<lparr>chunks_received := 3\<rparr>)\<rparr>
              = chunked_world\<lparr>files := (files chunked_world)
                    (path_join (temp_dir chunked_operation) (chunk_name 2) \<mapsto> ''XY|'',
                     path_join (temp_dir chunked_operation) ''combined.zip''
                       \<mapsto> concat [''PKbooks_'', ''data.db:'', ''XY|'']),
                  log := log chunked_world @ [Write (path_join (temp_dir chunked_operation) (chunk_name 2)),
                                  Write (path_join (temp_dir chunked_operation) ''combined.zip'')],
                  OPERATIONS := (OPERATIONS chunked_world)(''u'' \<mapsto>
                     chunked_operation\<lparr>chunks_received := chunks_received chunked_operation + 1\<rparr>)\<rparr>"
  proof -
    have "py_int ''2'' = Some 2" by code_simp
    then show ?thesis
      unfolding td chunk_names staged_paths cc cr
      by (simp add: chunk_form_def chunked_operation_def all_less_3 chunk_names staged_paths
          write_file_def chunked_world_def)
  qed
  note A = checksum_verified_only_when_given [OF registered_world_op f(1) f(4), of toy_env,
      THEN conjunct1, rule_format, OF f(6), THEN conjunct1, rule_format, OF f(8),
      unfolded td staged_paths]
  note B = checksum_verified_only_when_given [OF registered_world_op f(2) f(4), of toy_env,
      THEN conjunct1, rule_format, OF f(7), THEN conjunct2, unfolded toy_digests]
  note D = checksum_verified_only_when_given [OF chunked_world_op f(3) f(5), of toy_env,
      THEN conjunct2, rule_format, OF C, THEN conjunct1, rule_format, OF f(9),
      unfolded td staged_paths]
  from A B D show ?thesis by blast
qed

theorem empty_checksum_chunk_counterexample:
  "form_checksum \<lparr>form_chunk = Some ''0'', form_upload_id = Some ''u'',
                    form_total_chunks = Some ''1'', form_checksum = Some '''',
                    file_backup_file = Some (''blob'', ''PKbooks_static.db:Z|'')\<rparr> = Some ''''
   \<and> md5_hexdigest toy_env ''PKbooks_static.db:Z|'' \<noteq> ''''
   \<and> files (snd (restore_database toy_env
          \<lparr>form_chunk = Some ''0'', form_upload_id = Some ''u'',
             form_total_chunks = Some ''1'', form_checksum = Some '''',
             file_backup_file = Some (''blob'', ''PKbooks_static.db:Z|'')\<rparr> toy_world))
        ''temp_uploads/u/combined.zip'' = Some ''PKbooks_static.db:Z|''
   \<and> fst (restore_database toy_env
          \<lparr>form_chunk = Some ''0'', form_upload_id = Some ''u'',
             form_total_chunks = Some ''1'', form_checksum = Some '''',
             file_backup_file = Some (''blob'', ''PKbooks_static.db:Z|'')\<rparr> toy_world)
       = Reply [(''success'', JBool True),
                (''message'', JStr ''Database restore completed successfully''),
                (''restored_files'', JList [''database/books_static.db'']),
                (''upload_id'', JStr ''u'')] 200"
  by code_simp

subsection \<open>The registry across requests\<close>

lemma assemble_loop_registry:
  "OPERATIONS (snd (assemble_loop dir cp ixs w)) = OPERATIONS w"
  by (induction ixs arbitrary: w) (auto simp: Let_def append_file_def split: option.splits)

lemma assemble_registry: "OPERATIONS (snd (assemble dir n w)) = OPERATIONS w"
  by (simp add: assemble_def Let_def assemble_loop_registry write_file_def)

lemma mark_failed_other:
  "k \<noteq> uid \<Longrightarrow> OPERATIONS (snd (mark_failed uid rp w)) k = OPERATIONS w k"
  by (auto simp: mark_failed_def split: option.splits)

lemma verify_and_restore_registry:
  assumes "k \<noteq> uid"
  shows "OPERATIONS (snd (verify_and_restore E req uid file_path w)) k = OPERATIONS w k"
proof -
  have p: "OPERATIONS (snd (case perform_restore E file_path uid w of
                       (Unhandled e, w') \<Rightarrow> (Inl e, w')
                     | (reply, w') \<Rightarrow> (Inr reply, w'))) k = OPERATIONS w k"
    using perform_restore_registry[OF assms, of E file_path w]
    by (auto split: prod.splits restore_reply.splits)
  have m: "\<And>rp. OPERATIONS (snd (case mark_failed uid rp w of
                               (Unhandled e, w') \<Rightarrow> (Inl e, w')
                             | (reply, w') \<Rightarrow> (Inr reply, w'))) k = OPERATIONS w k"
  proof -
    fix rp
    obtain x w' where mf: "mark_failed uid rp w = (x, w')" by force
    then have "OPERATIONS w' k = OPERATIONS w k"
      using mark_failed_other[OF assms, of rp w] by simp
    then show "OPERATIONS (snd (case mark_failed uid rp w of
                               (Unhandled e, w') \<Rightarrow> (Inl e, w')
                             | (reply, w') \<Rightarrow> (Inr reply, w'))) k = OPERATIONS w k"
      unfolding mf by (cases x) auto
  qed
  show ?thesis unfolding verify_and_restore_def Let_def
    using p m by (auto split: option.splits sum.splits)
qed

lemma restore_body_registry:
  assumes "k \<noteq> uid"
  shows "OPERATIONS (snd (restore_body E req uid w)) k = OPERATIONS w k"
proof -
  have a: "OPERATIONS (snd (case assemble d n w2 of
              (Some e, w3) \<Rightarrow> (Inl e, w3)
            | (None, w3) \<Rightarrow> verify_and_restore E req uid fp w3)) k = OPERATIONS w2 k"
    for d n w2 fp
  proof (cases "assemble d n w2")
    case (Pair res w3)
    then have "OPERATIONS w3 = OPERATIONS w2" using assemble_registry[of d n w2] by simp
    then show ?thesis using Pair verify_and_restore_registry[OF assms, of E req fp w3]
      by (cases res) auto
  qed
  show ?thesis unfolding restore_body_def Let_def
    using assms
    by (auto simp: a verify_and_restore_registry update_op_other write_file_def
          split: option.splits prod.splits)
qed

lemma restore_try_registry:
  assumes "k \<noteq> uid"
  shows "OPERATIONS (snd (restore_try E req uid w)) k = OPERATIONS w k"
proof -
  obtain res w' where b: "restore_body E req uid w = (res, w')" by force
  then have "OPERATIONS w' k = OPERATIONS w k"
    using restore_body_registry[OF assms, of E req w] by simp
  then show ?thesis unfolding restore_try_def b
    using mark_failed_other[OF assms, of _ w']
    by (auto split: sum.splits py_exception.splits)
qed

lemma restore_database_registry:
  fixes req :: restore_form and E :: env
  assumes "k \<noteq> (case form_upload_id req of None \<Rightarrow> fresh_uuid E | Some u \<Rightarrow> u)"
  shows "OPERATIONS (snd (restore_database E req w)) k = OPERATIONS w k"
  unfolding restore_database_def Let_def
  using assms by (auto simp: restore_try_registry split: option.splits)

lemma serve_registry:
  "OPERATIONS (snd (serve w bp fn ck fs cs ranged s e)) = OPERATIONS w"
  by (auto simp: serve_def Let_def split: prod.splits)

lemma backup_database_registry:
  "OPERATIONS (snd (backup_database E cs h w)) = OPERATIONS w"
  unfolding backup_database_def Let_def
  by (auto simp: serve_registry write_file_def split: option.splits sum.splits prod.splits)

text \<open>
  C3, as amended. A record of the registry whose status is completed or failed is left as
  it is by the status handler, by the download handler and by every restore request that
  carries another upload id; the deferred clean-up of the operation deletes the whole
  record. (A restore request that reuses the upload id registers a new record under it or
  updates the one there.)
\<close>

theorem finished_record_kept:
  assumes "OPERATIONS w k = Some r" and "op_status r = completed \<or> op_status r = failed"
  shows "OPERATIONS (snd (operation_status u w)) = OPERATIONS w
     \<and> OPERATIONS (snd (backup_database E cs h w)) = OPERATIONS w
     \<and> ((case form_upload_id req of None \<Rightarrow> fresh_uuid E | Some u \<Rightarrow> u) \<noteq> k \<longrightarrow>
          OPERATIONS (snd (restore_database E req w)) k = Some r)
     \<and> OPERATIONS (cleanup_operation_later k w) k = None"
proof -
  have 1: "OPERATIONS (snd (operation_status u w)) = OPERATIONS w"
    by (simp add: operation_status_def split: option.splits)
  have 2: "OPERATIONS (snd (backup_database E cs h w)) = OPERATIONS w"
    by (rule backup_database_registry)
  have 3: "(case form_upload_id req of None \<Rightarrow> fresh_uuid E | Some u \<Rightarrow> u) \<noteq> k \<longrightarrow>
          OPERATIONS (snd (restore_database E req w)) k = Some r"
    using restore_database_registry[where k=k and req=req and E=E and w=w] assms(1) by auto
  have 4: "OPERATIONS (cleanup_operation_later k w) k = None"
    using assms(1) by (simp add: cleanup_operation_later_def Let_def rmtree_def)
  from 1 2 3 4 show ?thesis by blast
qed

theorem finished_record_kept_witness:
  "OPERATIONS (snd (operation_status ''u'' finished_world)) = OPERATIONS finished_world
   \<and> OPERATIONS (snd (backup_database toy_env None None finished_world)) = OPERATIONS finished_world
   \<and> OPERATIONS (snd (restore_database toy_env
         ((single_form None ''PKbooks_data.db:XY|'')\<lparr>form_upload_id := Some ''v''\<rparr>) finished_world)) ''u''
       = Some (staged_operation\<lparr>op_status := failed\<rparr>)
   \<and> OPERATIONS (cleanup_operation_later ''u'' finished_world) ''u'' = None"
proof -
  have 1: "OPERATIONS finished_world ''u'' = Some (staged_operation\<lparr>op_status := failed\<rparr>)"
    by (simp add: finished_world_def)
  have 2: "op_status (staged_operation\<lparr>op_status := failed\<rparr>) = completed
      \<or> op_status (staged_operation\<lparr>op_status := failed\<rparr>) = failed" by simp
  have 3: "(case form_upload_id ((single_form None ''PKbooks_data.db:XY|'')\<lparr>form_upload_id := Some ''v''\<rparr>)
            of None \<Rightarrow> fresh_uuid toy_env | Some u \<Rightarrow> u) \<noteq> ''u''"
    by simp
  note T = finished_record_kept [OF 1 2, of "''u''" toy_env None None
      "(single_form None ''PKbooks_data.db:XY|'')\<lparr>form_upload_id := Some ''v''\<rparr>"]
  from T 3 show ?thesis by blast
qed

theorem reused_upload_id_counterexample:
  "map_option op_status
     (OPERATIONS (snd (restore_database toy_env (single_form (Some ''1'') ''PKbooks_data.db:XY|'')
                         toy_world)) ''u'') = Some failed
   \<and> map_option op_status
     (OPERATIONS (snd (restore_database toy_env (single_form None ''PKbooks_data.db:XY|'')
          (snd (restore_database toy_env (single_form (Some ''1'') ''PKbooks_data.db:XY|'')
                         toy_world)))) ''u'') = Some completed"
  by code_simp

subsection \<open>Decimal numerals: printing and parsing\<close>

lemma digit_val_digit_char: "d < 10 \<Longrightarrow> digit_val (digit_char d) = d"
  by (simp add: digit_val_def digit_char_def)

lemma is_digit_not_space: "is_digit c \<Longrightarrow> \<not> is_space c"
  by (auto simp: is_digit_def is_space_def)

lemma show_nat_digits: "\<forall>c \<in> set (show_nat n). is_digit c"
proof (induction n rule: show_nat.induct)
  case (1 n)
  show ?case
  proof (cases "n < 10")
    case True
    then show ?thesis by (subst show_nat.simps) (simp add: is_digit_digit_char)
  next
    case False
    then show ?thesis using 1
      by (subst show_nat.simps) (simp add: is_digit_digit_char)
  qed
qed

lemma more_digits_all_digits:
  "\<forall>c \<in> set ds. is_digit c \<Longrightarrow> more_digits acc ds = Some (dec_value acc ds)"
proof (induction acc ds rule: more_digits.induct)
  case (1 acc)
  then show ?case by (simp add: dec_value_def)
next
  case (2 acc c)
  then show ?case by (simp add: dec_value_def)
next
  case (3 acc c d r)
  then show ?case by (simp add: dec_value_def)
qed

lemma dec_value_show_nat: "dec_value 0 (show_nat n) = n"
proof (induction n rule: show_nat.induct)
  case (1 n)
  show ?case
  proof (cases "n < 10")
    case True
    then show ?thesis
      by (subst show_nat.simps) (simp add: dec_value_def digit_val_digit_char)
  next
    case False
    then have "dec_value 0 (show_nat (n div 10)) = n div 10" using 1 by simp
    then show ?thesis using False
      by (subst show_nat.simps) (simp add: dec_value_def digit_val_digit_char)
  qed
qed

lemma show_nat_length_mono: "i \<le> n \<Longrightarrow> length (show_nat i) \<le> length (show_nat n)"
proof (induction n arbitrary: i rule: show_nat.induct)
  case (1 n)
  show ?case
  proof (cases "i < 10")
    case True
    then have "length (show_nat i) = 1" by (subst show_nat.simps) simp
    moreover have "1 \<le> length (show_nat n)" by (subst show_nat.simps) simp
    ultimately show ?thesis by simp
  next
    case False
    then have n: "\<not> n < 10" using "1.prems" by simp
    have "i div 10 \<le> n div 10" using "1.prems" by (rule div_le_mono)
    then have "length (show_nat (i div 10)) \<le> length (show_nat (n div 10))"
      using "1.IH"[OF n] by simp
    moreover have "length (show_nat i) = length (show_nat (i div 10)) + 1"
      using False by (subst show_nat.simps) simp
    moreover have "length (show_nat n) = length (show_nat (n div 10)) + 1"
      using n by (subst show_nat.simps) simp
    ultimately show ?thesis by simp
  qed
qed

lemma show_nat_length_le: "n < 10 ^ k \<Longrightarrow> 0 < k \<Longrightarrow> length (show_nat n) \<le> k"
proof (induction n arbitrary: k rule: show_nat.induct)
  case (1 n)
  show ?case
  proof (cases "n < 10")
    case True
    then have "length (show_nat n) = 1" by (subst show_nat.simps) simp
    then show ?thesis using "1.prems"(2) by simp
  next
    case False
    obtain k' where k: "k = Suc k'" using "1.prems"(2) by (cases k) auto
    have lt: "n div 10 < 10 ^ k'" using "1.prems"(1) unfolding k
      by (simp add: less_mult_imp_div_less mult.commute)
    have "0 < k'" using False "1.prems"(1) unfolding k by (cases k') auto
    from "1.IH"[OF False lt this]
    have "length (show_nat (n div 10)) \<le> k'" .
    moreover have "length (show_nat n) = length (show_nat (n div 10)) + 1"
      using False by (subst show_nat.simps) simp
    ultimately show ?thesis unfolding k by simp
  qed
qed

text \<open>An offset in a file is printed with few digits.\<close>

lemma offset_digits:
  assumes "i \<le> PY_SSIZE_T_MAX" shows "int (length (show_nat (nat i))) \<le> int_max_str_digits"
proof -
  have "nat i < 10 ^ 19" using assms by (simp add: PY_SSIZE_T_MAX_def)
  then have "length (show_nat (nat i)) \<le> 19" by (rule show_nat_length_le) simp
  then show ?thesis by (simp add: int_max_str_digits_def)
qed

lemma unsigned_int_show_nat:
  assumes "int (length (show_nat n)) \<le> int_max_str_digits"
  shows "unsigned_int (show_nat n) = Some n"
proof -
  obtain c r where cr: "show_nat n = c # r"
    using show_nat_last[of n] by (cases "show_nat n") auto
  have d: "is_digit c" "\<forall>x \<in> set r. is_digit x" using show_nat_digits[of n] cr by auto
  have "filter is_digit (c # r) = c # r" using d by simp
  then have "\<not> int_max_str_digits < int (length (filter is_digit (c # r)))"
    using assms unfolding cr by simp
  then have "unsigned_int (c # r) = Some (dec_value (digit_val c) r)"
    using d unfolding unsigned_int_def by (simp add: more_digits_all_digits)
  also have "dec_value (digit_val c) r = dec_value 0 (c # r)" by (simp add: dec_value_def)
  also have "\<dots> = n" using dec_value_show_nat[of n] cr by simp
  finally show ?thesis using cr by simp
qed

lemma strip_unspaced:
  assumes "s \<noteq> []" and "\<not> is_space (hd s)" and "\<not> is_space (last s)"
  shows "strip s = s"
proof -
  have 1: "dropWhile is_space s = s" using assms(1,2) by (cases s) auto
  obtain x xs where rs: "rev s = x # xs" using assms(1) by (cases "rev s") auto
  have "hd (rev s) = last s" by (rule hd_rev)
  then have "x = last s" unfolding rs by simp
  then have 2: "dropWhile is_space (rev s) = rev s" unfolding rs using assms(3) by simp
  show ?thesis by (simp add: strip_def 1 2)
qed

lemma py_int_show_nat:
  assumes "int (length (show_nat n)) \<le> int_max_str_digits"
  shows "py_int (show_nat n) = Some (int n)"
proof -
  obtain c r where cr: "show_nat n = c # r"
    using show_nat_last[of n] by (cases "show_nat n") auto
  have ne: "show_nat n \<noteq> []" using cr by simp
  have dg: "is_digit (hd (show_nat n))" "is_digit (last (show_nat n))"
    using show_nat_digits[of n] ne by (auto simp: hd_in_set)
  have st: "strip (show_nat n) = c # r"
    using strip_unspaced[OF ne] dg is_digit_not_space cr by auto
  have "is_digit c" using dg(1) cr by simp
  then have "c \<noteq> CHR ''-''" "c \<noteq> CHR ''+''" by (auto simp: is_digit_def)
  then show ?thesis
    using unsigned_int_show_nat[OF assms] unfolding cr py_int_def st[unfolded cr] by simp
qed

lemma show_nat_inject:
  assumes "show_nat m = show_nat n" shows "m = n"
proof -
  have "m = dec_value 0 (show_nat m)" by (simp only: dec_value_show_nat)
  also have "\<dots> = dec_value 0 (show_nat n)" by (simp only: assms)
  also have "\<dots> = n" by (rule dec_value_show_nat)
  finally show ?thesis .
qed

lemma show_nat_0: "show_nat 0 = ''0''"
  by code_simp

lemma show_nat_zero: "show_nat n = ''0'' \<longleftrightarrow> n = 0"
proof
  assume "show_nat n = ''0''"
  then have "show_nat n = show_nat 0" by (simp only: show_nat_0)
  then show "n = 0" by (rule show_nat_inject)
next
  assume "n = 0"
  then show "show_nat n = ''0''" by (simp only: show_nat_0)
qed

lemma chunk_name_nat: "chunk_name (int i) = ''chunk_'' @ show_nat i"
  by (simp add: chunk_name_def show_int_def)

lemma chunk_path_inject:
  assumes "path_join d (chunk_name (int i)) = path_join d (chunk_name (int j))"
  shows "i = j"
proof -
  have ne: "chunk_name (int k) \<noteq> []" "hd (chunk_name (int k)) \<noteq> CHR ''/''" for k
    by (simp_all add: chunk_name_nat)
  have "chunk_name (int i) = chunk_name (int j)"
    by (rule path_join_inject[OF assms ne ne])
  then have "show_nat i = show_nat j" by (simp add: chunk_name_nat)
  then show "i = j" by (rule show_nat_inject)
qed

subsection \<open>Chunked delivery\<close>

lemma chunk_request_fields:
  "form_chunk (chunk_request uid n ck d i) = Some (show_nat i)"
  "form_upload_id (chunk_request uid n ck d i) = Some uid"
  "form_total_chunks (chunk_request uid n ck d i) = Some (show_nat n)"
  "file_backup_file (chunk_request uid n ck d i) = Some (''blob'', d i)"
  by (simp_all add: chunk_request_def)

lemma first_chunk:
  assumes "int (length (show_nat n)) \<le> int_max_str_digits"
  shows "restore_database E (chunk_request uid n ck d 0) w =
     restore_try E (chunk_request uid n ck d 0) uid
       (w\<lparr>OPERATIONS := (OPERATIONS w)(uid \<mapsto>
            \<lparr>op_type = ''restore'', op_status = uploading, started_at = clock E,
             chunks_received = 0, total_chunks = int n,
             temp_dir = path_join ''temp_uploads'' uid,
             completed_at = None, restored_files = None, op_error = None\<rparr>)\<rparr>)"
  unfolding restore_database_def Let_def chunk_request_fields
  by (simp add: show_nat_0 py_int_show_nat[OF assms])

lemma later_chunk:
  assumes "i \<noteq> 0" and "OPERATIONS w uid = Some r"
  shows "restore_database E (chunk_request uid n ck d i) w
     = restore_try E (chunk_request uid n ck d i) uid w"
  unfolding restore_database_def Let_def chunk_request_fields
  using assms by (simp add: show_nat_zero)

lemma more_expected:
  assumes "OPERATIONS w uid = Some r" and "chunks_received r + 1 < total_chunks r"
    and "int (length (show_nat i)) \<le> int_max_str_digits"
  shows "restore_try E (chunk_request uid n ck d i) uid w =
     (Reply [(''success'', JBool True),
             (''upload_id'', JStr uid),
             (''message'', JStr (''Chunk '' @ show_int (int i) @ '' received successfully'')),
             (''chunks_received'', JInt (chunks_received r + 1)),
             (''total_chunks'', JInt (total_chunks r))] 200,
      update_op uid (\<lambda>r. r\<lparr>chunks_received := chunks_received r + 1\<rparr>)
        (write_file (path_join (temp_dir r) (chunk_name (int i))) (d i) w))"
proof -
  have ne: "''blob'' \<noteq> []" by simp
  show ?thesis
    by (rule restore_try_reply)
       (rule restore_body_more_chunks[OF chunk_request_fields(1)[of uid n ck d i]
          py_int_show_nat[OF assms(3)] chunk_request_fields(4)[of uid n ck d i] ne assms(1,2)])
qed

lemma last_chunk_combined:
  assumes "OPERATIONS w uid = Some r" and "total_chunks r \<le> chunks_received r + 1"
    and "length cs = nat (total_chunks r)"
    and "\<forall>j < nat (total_chunks r).
           files (write_file (path_join (temp_dir r) (chunk_name (int i))) (d i) w)
             (path_join (temp_dir r) (chunk_name (int j))) = Some (cs ! j)"
    and "int (length (show_nat i)) \<le> int_max_str_digits"
  shows "files (snd (restore_try E (chunk_request uid n ck d i) uid w))
           (path_join (temp_dir r) ''combined.zip'') = Some (concat cs)"
proof -
  define cp where "cp = path_join (temp_dir r) ''combined.zip''"
  define w3 where "w3 = w\<lparr>files := (files w)(path_join (temp_dir r) (chunk_name (int i)) \<mapsto> d i,
                               path_join (temp_dir r) ''combined.zip'' \<mapsto> concat cs),
                log := log w @ [Write (path_join (temp_dir r) (chunk_name (int i))),
                                Write (path_join (temp_dir r) ''combined.zip'')],
                OPERATIONS := (OPERATIONS w)(uid \<mapsto> r\<lparr>chunks_received := chunks_received r + 1\<rparr>)\<rparr>"
  have ne: "''blob'' \<noteq> []" by simp
  have b: "restore_body E (chunk_request uid n ck d i) uid w
      = verify_and_restore E (chunk_request uid n ck d i) uid cp w3"
    unfolding cp_def
    by (rule last_chunk_assembled[OF chunk_request_fields(1)[of uid n ck d i]
          py_int_show_nat[OF assms(5)]
          chunk_request_fields(4)[of uid n ck d i] ne assms(1,2,3,4) w3_def])
  have cpq: "cp \<notin> set DATABASE_PATHS"
    "cp \<notin> (\<lambda>p. p @ ''.'' @ timestamp E @ ''.bak'') ` set DATABASE_PATHS"
    using staged_not_database(2) staged_not_bak(2) by (auto simp: cp_def)
  have "files (snd (restore_try E (chunk_request uid n ck d i) uid w)) cp
      = files (snd (verify_and_restore E (chunk_request uid n ck d i) uid cp w3)) cp"
    using b by (simp add: restore_try_files)
  also have "\<dots> = files w3 cp" by (rule verify_and_restore_files[OF cpq])
  also have "\<dots> = Some (concat cs)" by (simp add: w3_def cp_def)
  finally show ?thesis unfolding cp_def .
qed

lemma deliver_rest:
  assumes "rest \<noteq> []"
    and "OPERATIONS w uid = Some r" and "total_chunks r = int n"
    and "temp_dir r = dir" and "chunks_received r = int (length got)"
    and "\<forall>i \<in> set got. files w (path_join dir (chunk_name (int i))) = Some (d i)"
    and "distinct (got @ rest)" and "set (got @ rest) = {0..<n}" and "0 \<in> set got"
    and "int (length (show_nat n)) \<le> int_max_str_digits"
  shows "files (snd (deliver E (map (chunk_request uid n ck d) rest) w))
           (path_join dir ''combined.zip'') = Some (concat (map d [0..<n]))
     \<and> length (fst (deliver E (map (chunk_request uid n ck d) rest) w)) = length rest
     \<and> (\<forall>j < length rest - 1. \<exists>i c.
           fst (deliver E (map (chunk_request uid n ck d) rest) w) ! j =
             Reply [(''success'', JBool True),
                    (''upload_id'', JStr uid),
                    (''message'', JStr (''Chunk '' @ show_int (int i) @ '' received successfully'')),
                    (''chunks_received'', JInt c),
                    (''total_chunks'', JInt (int n))] 200)"
  using assms
proof (induction rest arbitrary: w r got)
  case Nil
  then show ?case by simp
next
  case (Cons i rest)
  note op = Cons.prems(2) and tot = Cons.prems(3) and td = Cons.prems(4)
    and cnt = Cons.prems(5) and fl = Cons.prems(6) and dist = Cons.prems(7)
    and st = Cons.prems(8) and z = Cons.prems(9) and dg = Cons.prems(10)
  have "i \<in> {0..<n}" using st by auto
  then have "length (show_nat i) \<le> length (show_nat n)" by (simp add: show_nat_length_mono)
  then have di: "int (length (show_nat i)) \<le> int_max_str_digits" using dg by simp
  have len: "length got + length (i # rest) = n"
  proof -
    have "length (got @ i # rest) = card (set (got @ i # rest))"
      using dist by (simp only: distinct_card)
    then show ?thesis using st by simp
  qed
  have i0: "i \<noteq> 0" using z dist by auto
  have igot: "i \<notin> set got" using dist by auto
  have rd: "restore_database E (chunk_request uid n ck d i) w
      = restore_try E (chunk_request uid n ck d i) uid w"
    by (rule later_chunk[OF i0 op])
  define w1 where "w1 = write_file (path_join dir (chunk_name (int i))) (d i) w"
  have keep: "files w1 (path_join dir (chunk_name (int k))) = Some (d k)" if "k \<in> set got" for k
  proof -
    have "k \<noteq> i" using that igot by auto
    then have "path_join dir (chunk_name (int k)) \<noteq> path_join dir (chunk_name (int i))"
      using chunk_path_inject by blast
    then show ?thesis using fl that by (simp add: w1_def write_file_def)
  qed
  have new: "files w1 (path_join dir (chunk_name (int i))) = Some (d i)"
    by (simp add: w1_def write_file_def)
  show ?case
  proof (cases "rest = []")
    case True
    then have n: "int n = chunks_received r + 1" using len cnt by simp
    have all: "\<forall>j < nat (total_chunks r).
           files (write_file (path_join (temp_dir r) (chunk_name (int i))) (d i) w)
             (path_join (temp_dir r) (chunk_name (int j))) = Some (map d [0..<n] ! j)"
    proof (intro allI impI)
      fix j assume "j < nat (total_chunks r)"
      then have j: "j < n" using tot by simp
      then have "j \<in> set (got @ i # rest)" using st by simp
      then have "j = i \<or> j \<in> set got" using True by auto
      then have "files w1 (path_join dir (chunk_name (int j))) = Some (d j)"
        using keep new by auto
      then show "files (write_file (path_join (temp_dir r) (chunk_name (int i))) (d i) w)
             (path_join (temp_dir r) (chunk_name (int j))) = Some (map d [0..<n] ! j)"
        using j unfolding td w1_def by simp
    qed
    have "files (snd (restore_try E (chunk_request uid n ck d i) uid w))
           (path_join (temp_dir r) ''combined.zip'') = Some (concat (map d [0..<n]))"
    proof -
      have le: "total_chunks r \<le> chunks_received r + 1" using tot n by linarith
      have ln: "length (map d [0..<n]) = nat (total_chunks r)" unfolding tot by simp
      show ?thesis
        by (rule last_chunk_combined[where cs="map d [0..<n]" and d=d and i=i, OF op le ln all di])
    qed
    then show ?thesis using True rd td by (auto split: prod.splits)
  next
    case False
    then have more: "chunks_received r + 1 < total_chunks r"
      using len cnt tot by (cases rest) auto
    define w' where "w' = update_op uid (\<lambda>r. r\<lparr>chunks_received := chunks_received r + 1\<rparr>) w1"
    have step: "restore_database E (chunk_request uid n ck d i) w =
       (Reply [(''success'', JBool True),
               (''upload_id'', JStr uid),
               (''message'', JStr (''Chunk '' @ show_int (int i) @ '' received successfully'')),
               (''chunks_received'', JInt (chunks_received r + 1)),
               (''total_chunks'', JInt (int n))] 200, w')"
      unfolding rd w'_def w1_def using more_expected[OF op more di, of E n ck d] td tot by simp
    have op': "OPERATIONS w' uid = Some (r\<lparr>chunks_received := chunks_received r + 1\<rparr>)"
      using op by (simp add: w'_def w1_def update_op_same write_file_def)
    have fl': "\<forall>k \<in> set (got @ [i]). files w' (path_join dir (chunk_name (int k))) = Some (d k)"
      using keep new by (auto simp: w'_def)
    have IH: "files (snd (deliver E (map (chunk_request uid n ck d) rest) w'))
           (path_join dir ''combined.zip'') = Some (concat (map d [0..<n]))
     \<and> length (fst (deliver E (map (chunk_request uid n ck d) rest) w')) = length rest
     \<and> (\<forall>j < length rest - 1. \<exists>i c.
           fst (deliver E (map (chunk_request uid n ck d) rest) w') ! j =
             Reply [(''success'', JBool True),
                    (''upload_id'', JStr uid),
                    (''message'', JStr (''Chunk '' @ show_int (int i) @ '' received successfully'')),
                    (''chunks_received'', JInt c),
                    (''total_chunks'', JInt (int n))] 200)"
    proof (rule Cons.IH[OF False op' _ _ _ fl'])
      show "total_chunks (r\<lparr>chunks_received := chunks_received r + 1\<rparr>) = int n" using tot by simp
      show "temp_dir (r\<lparr>chunks_received := chunks_received r + 1\<rparr>) = dir" using td by simp
      show "chunks_received (r\<lparr>chunks_received := chunks_received r + 1\<rparr>) = int (length (got @ [i]))"
        using cnt by simp
      show "distinct ((got @ [i]) @ rest)" using dist by simp
      show "set ((got @ [i]) @ rest) = {0..<n}" using st by simp
      show "0 \<in> set (got @ [i])" using z by simp
      show "int (length (show_nat n)) \<le> int_max_str_digits" by (rule dg)
    qed
    obtain replies w'' where dl: "deliver E (map (chunk_request uid n ck d) rest) w' = (replies, w'')"
      by force
    have whole: "deliver E (map (chunk_request uid n ck d) (i # rest)) w =
        (Reply [(''success'', JBool True),
               (''upload_id'', JStr uid),
               (''message'', JStr (''Chunk '' @ show_int (int i) @ '' received successfully'')),
               (''chunks_received'', JInt (chunks_received r + 1)),
               (''total_chunks'', JInt (int n))] 200 # replies, w'')"
      using step dl by simp
    have "\<exists>i' c. (Reply [(''success'', JBool True),
               (''upload_id'', JStr uid),
               (''message'', JStr (''Chunk '' @ show_int (int i) @ '' received successfully'')),
               (''chunks_received'', JInt (chunks_received r + 1)),
               (''total_chunks'', JInt (int n))] 200 # replies) ! j =
             Reply [(''success'', JBool True),
                    (''upload_id'', JStr uid),
                    (''message'', JStr (''Chunk '' @ show_int (int i') @ '' received successfully'')),
                    (''chunks_received'', JInt c),
                    (''total_chunks'', JInt (int n))] 200"
      if j: "j < length (i # rest) - 1" for j
    proof (cases j)
      case 0
      then show ?thesis by auto
    next
      case (Suc j')
      then have "j' < length rest - 1" using j by simp
      then show ?thesis using IH dl Suc by simp
    qed
    then show ?thesis unfolding whole using IH dl by simp
  qed
qed

lemma deliver_from_zero:
  assumes "0 < n" and "distinct order" and "set order = {1..<n}"
    and "int (length (show_nat n)) \<le> int_max_str_digits"
  shows "files (snd (deliver E (map (chunk_request uid n ck d) (0 # order)) w))
           (path_join (path_join ''temp_uploads'' uid) ''combined.zip'')
       = Some (concat (map d [0..<n]))
     \<and> (\<forall>j < n - 1. \<exists>i c.
           fst (deliver E (map (chunk_request uid n ck d) (0 # order)) w) ! j =
             Reply [(''success'', JBool True),
                    (''upload_id'', JStr uid),
                    (''message'', JStr (''Chunk '' @ show_int (int i) @ '' received successfully'')),
                    (''chunks_received'', JInt c),
                    (''total_chunks'', JInt (int n))] 200)"
proof -
  define dir where "dir = path_join ''temp_uploads'' uid"
  define r0 where "r0 = \<lparr>op_type = ''restore'', op_status = uploading, started_at = clock E,
             chunks_received = 0, total_chunks = int n, temp_dir = dir,
             completed_at = None, restored_files = None, op_error = None\<rparr>"
  define w_new where "w_new = w\<lparr>OPERATIONS := (OPERATIONS w)(uid \<mapsto> r0)\<rparr>"
  have first: "restore_database E (chunk_request uid n ck d 0) w
      = restore_try E (chunk_request uid n ck d 0) uid w_new"
    unfolding w_new_def r0_def dir_def by (rule first_chunk[OF assms(4)])
  have op: "OPERATIONS w_new uid = Some r0" by (simp add: w_new_def)
  have "length (show_nat 0) \<le> length (show_nat n)" by (simp add: show_nat_length_mono)
  then have d0: "int (length (show_nat 0)) \<le> int_max_str_digits" using assms(4) by simp
  have r0: "total_chunks r0 = int n" "temp_dir r0 = dir" "chunks_received r0 = 0"
    by (simp_all add: r0_def)
  have lo: "length order = n - 1"
  proof -
    have "length order = card (set order)" using assms(2) by (simp only: distinct_card)
    then show ?thesis using assms(3) by simp
  qed
  show ?thesis
  proof (cases "n = 1")
    case True
    then have o: "order = []" using lo by simp
    have le: "total_chunks r0 \<le> chunks_received r0 + 1" using True r0 by simp
    have ln: "length [d 0] = nat (total_chunks r0)" using True r0 by simp
    have all: "\<forall>j < nat (total_chunks r0).
           files (write_file (path_join (temp_dir r0) (chunk_name (int 0))) (d 0) w_new)
             (path_join (temp_dir r0) (chunk_name (int j))) = Some ([d 0] ! j)"
      using True r0 by (simp add: write_file_def)
    have "files (snd (restore_try E (chunk_request uid n ck d 0) uid w_new))
           (path_join (temp_dir r0) ''combined.zip'') = Some (concat [d 0])"
      by (rule last_chunk_combined[where cs="[d 0]" and d=d and i=0, OF op le ln all d0])
    then show ?thesis using True o first r0 unfolding dir_def[symmetric]
      by (auto split: prod.splits)
  next
    case False
    then have n2: "1 < n" using assms(1) by simp
    then have more: "chunks_received r0 + 1 < total_chunks r0" using r0 by simp
    define w0 where "w0 = update_op uid (\<lambda>r. r\<lparr>chunks_received := chunks_received r + 1\<rparr>)
        (write_file (path_join dir (chunk_name (int 0))) (d 0) w_new)"
    have step: "restore_database E (chunk_request uid n ck d 0) w =
       (Reply [(''success'', JBool True),
               (''upload_id'', JStr uid),
               (''message'', JStr (''Chunk '' @ show_int (int 0) @ '' received successfully'')),
               (''chunks_received'', JInt 1),
               (''total_chunks'', JInt (int n))] 200, w0)"
      unfolding first w0_def using more_expected[OF op more d0, of E n ck d] r0 by simp
    have op0: "OPERATIONS w0 uid = Some (r0\<lparr>chunks_received := chunks_received r0 + 1\<rparr>)"
      using op by (simp add: w0_def update_op_same write_file_def)
    have fl0: "\<forall>k \<in> set [0]. files w0 (path_join dir (chunk_name (int k))) = Some (d k)"
      by (simp add: w0_def write_file_def)
    have ne: "order \<noteq> []" using lo n2 by auto
    have st: "set ([0] @ order) = {0..<n}" using assms(1,3) by auto
    have ds: "distinct ([0] @ order)" using assms(2,3) by auto
    have R: "files (snd (deliver E (map (chunk_request uid n ck d) order) w0))
           (path_join dir ''combined.zip'') = Some (concat (map d [0..<n]))
     \<and> length (fst (deliver E (map (chunk_request uid n ck d) order) w0)) = length order
     \<and> (\<forall>j < length order - 1. \<exists>i c.
           fst (deliver E (map (chunk_request uid n ck d) order) w0) ! j =
             Reply [(''success'', JBool True),
                    (''upload_id'', JStr uid),
                    (''message'', JStr (''Chunk '' @ show_int (int i) @ '' received successfully'')),
                    (''chunks_received'', JInt c),
                    (''total_chunks'', JInt (int n))] 200)"
    proof (rule deliver_rest[OF ne op0 _ _ _ fl0 ds st _ assms(4)])
      show "total_chunks (r0\<lparr>chunks_received := chunks_received r0 + 1\<rparr>) = int n"
        using r0 by simp
      show "temp_dir (r0\<lparr>chunks_received := chunks_received r0 + 1\<rparr>) = dir" using r0 by simp
      show "chunks_received (r0\<lparr>chunks_received := chunks_received r0 + 1\<rparr>) = int (length [0::nat])"
        using r0 by simp
      show "0 \<in> set [0::nat]" by simp
    qed
    obtain replies w'' where dl: "deliver E (map (chunk_request uid n ck d) order) w0 = (replies, w'')"
      by force
    have whole: "deliver E (map (chunk_request uid n ck d) (0 # order)) w =
        (Reply [(''success'', JBool True),
               (''upload_id'', JStr uid),
               (''message'', JStr (''Chunk '' @ show_int (int 0) @ '' received successfully'')),
               (''chunks_received'', JInt 1),
               (''total_chunks'', JInt (int n))] 200 # replies, w'')"
      using step dl by simp
    have "\<exists>i c. (Reply [(''success'', JBool True),
               (''upload_id'', JStr uid),
               (''message'', JStr (''Chunk '' @ show_int (int 0) @ '' received successfully'')),
               (''chunks_received'', JInt 1),
               (''total_chunks'', JInt (int n))] 200 # replies) ! j =
             Reply [(''success'', JBool True),
                    (''upload_id'', JStr uid),
                    (''message'', JStr (''Chunk '' @ show_int (int i) @ '' received successfully'')),
                    (''chunks_received'', JInt c),
                    (''total_chunks'', JInt (int n))] 200"
      if j: "j < n - 1" for j
    proof (cases j)
      case 0
      then show ?thesis by (intro exI[of _ 0] exI[of _ 1]) simp
    next
      case (Suc j')
      then have "j' < length order - 1" using j lo by simp
      then show ?thesis using R dl Suc by simp
    qed
    then show ?thesis unfolding whole dir_def[symmetric] using R dl by simp
  qed
qed

text \<open>
  C2, as amended. An upload of \<open>n \<ge> 1\<close> chunks \<open>d 0, ..., d (n - 1)\<close> is delivered to one
  upload id, from any state of the server: chunk 0 first, then the indices \<open>1 .. n - 1\<close>
  once each, in any order. The number of chunks is one that \<^verbatim>\<open>int\<close> reads: its numeral
  has at most 4300 digits. Then the combined file is the concatenation of the chunks in
  index order, which is the file that delivery in index order produces; and the first
  \<open>n - 1\<close> replies are the "chunk received" replies, so the upload is assembled at the
  \<open>n\<close>-th delivery and not before.
\<close>

theorem chunks_in_any_order:
  assumes "0 < n" and "distinct order" and "set order = {1..<n}"
    and "int (length (show_nat n)) \<le> int_max_str_digits"
  shows "files (snd (deliver E (map (chunk_request uid n ck d) (0 # order)) w))
           (path_join (path_join ''temp_uploads'' uid) ''combined.zip'')
       = Some (concat (map d [0..<n]))
     \<and> files (snd (deliver E (map (chunk_request uid n ck d) (0 # order)) w))
           (path_join (path_join ''temp_uploads'' uid) ''combined.zip'')
       = files (snd (deliver E (map (chunk_request uid n ck d) [0..<n]) w))
           (path_join (path_join ''temp_uploads'' uid) ''combined.zip'')
     \<and> (\<forall>j < n - 1. \<exists>i c.
           fst (deliver E (map (chunk_request uid n ck d) (0 # order)) w) ! j =
             Reply [(''success'', JBool True),
                    (''upload_id'', JStr uid),
                    (''message'', JStr (''Chunk '' @ show_int (int i) @ '' received successfully'')),
                    (''chunks_received'', JInt c),
                    (''total_chunks'', JInt (int n))] 200)"
proof -
  note A = deliver_from_zero[OF assms, of E uid ck d w]
  have "distinct [1..<n]" "set [1..<n] = {1..<n}" by simp_all
  note B = deliver_from_zero[OF assms(1) this assms(4), of E uid ck d w]
  have "[0..<n] = 0 # [1..<n]" using assms(1) by (simp add: upt_conv_Cons)
  then show ?thesis using A B by simp
qed

theorem chunks_in_any_order_witness:
  "files (snd (deliver toy_env (map (chunk_request ''u'' 3 None toy_chunks) [0, 2, 1]) toy_world))
       ''temp_uploads/u/combined.zip'' = Some ''PKbooks_data.db:XY|''
   \<and> files (snd (deliver toy_env (map (chunk_request ''u'' 3 None toy_chunks) [0, 2, 1]) toy_world))
       ''temp_uploads/u/combined.zip''
     = files (snd (deliver toy_env (map (chunk_request ''u'' 3 None toy_chunks) [0, 1, 2]) toy_world))
       ''temp_uploads/u/combined.zip''
   \<and> (\<exists>i c. fst (deliver toy_env (map (chunk_request ''u'' 3 None toy_chunks) [0, 2, 1]) toy_world) ! 0 =
             Reply [(''success'', JBool True),
                    (''upload_id'', JStr ''u''),
                    (''message'', JStr (''Chunk '' @ show_int (int i) @ '' received successfully'')),
                    (''chunks_received'', JInt c),
                    (''total_chunks'', JInt 3)] 200)
   \<and> (\<exists>i c. fst (deliver toy_env (map (chunk_request ''u'' 3 None toy_chunks) [0, 2, 1]) toy_world) ! 1 =
             Reply [(''success'', JBool True),
                    (''upload_id'', JStr ''u''),
                    (''message'', JStr (''Chunk '' @ show_int (int i) @ '' received successfully'')),
                    (''chunks_received'', JInt c),
                    (''total_chunks'', JInt 3)] 200)"
proof -
  have h: "(0::nat) < 3" "distinct [2, 1::nat]" "set [2, 1::nat] = {1..<3}" by auto
  have g: "int (length (show_nat 3)) \<le> int_max_str_digits" by code_simp
  have u: "[0..<3] = [0, 1, 2::nat]" by (simp add: upt_rec)
  have c: "concat (map toy_chunks [0, 1, 2]) = ''PKbooks_data.db:XY|''"
    by (simp add: toy_chunks_def)
  have p: "path_join (path_join ''temp_uploads'' ''u'') ''combined.zip'' = ''temp_uploads/u/combined.zip''"
    by (simp add: path_join_def)
  note T = chunks_in_any_order [OF h g, of toy_env "''u''" None toy_chunks toy_world, unfolded u c p]
  have j: "(0::nat) < 3 - 1" "(1::nat) < 3 - 1" by simp_all
  from T [THEN conjunct1] T [THEN conjunct2, THEN conjunct1]
    T [THEN conjunct2, THEN conjunct2, rule_format, OF j(1)]
    T [THEN conjunct2, THEN conjunct2, rule_format, OF j(2)]
  show ?thesis by simp
qed

theorem chunk_order_counterexample:
  "files (snd (deliver toy_env (map (chunk_request ''u'' 3 None toy_chunks) [0, 1, 2]) toy_world))
       ''temp_uploads/u/combined.zip'' = Some ''PKbooks_data.db:XY|''
   \<and> files (snd (deliver toy_env (map (chunk_request ''u'' 3 None toy_chunks) [1, 0, 2]) toy_world))
       ''temp_uploads/u/combined.zip'' = None
   \<and> files (snd (deliver toy_env (map (chunk_request ''u'' 3 None toy_chunks) [0, 1, 0, 2]) toy_world))
       ''temp_uploads/u/combined.zip'' = None
   \<and> fst (deliver toy_env (map (chunk_request ''u'' 3 None toy_chunks) [0, 1, 1]) toy_world) ! 2
       = Reply [(''error'', JExc ''Restore failed: '' (FileNotFoundError ''temp_uploads/u/chunk_2'')),
                (''upload_id'', JStr ''u'')] 500"
  by code_simp

subsection \<open>Range requests, end to end\<close>

lemma replace_bytes_eq_id: "CHR ''b'' \<notin> set s \<Longrightarrow> replace_bytes_eq s = s"
proof (induction s rule: replace_bytes_eq.induct)
  case 1
  then show ?case by simp
next
  case (2 c cs)
  have cb: "c \<noteq> CHR ''b''" and rest: "CHR ''b'' \<notin> set cs" using 2(3) by auto
  have nt: "take 6 (c # cs) \<noteq> ''bytes=''" using cb by auto
  have "replace_bytes_eq cs = cs" using 2(2)[OF nt rest] .
  then show ?case using nt by (simp only: replace_bytes_eq.simps if_False)
qed

lemma split_on_none: "sep \<notin> set s \<Longrightarrow> split_on sep s = [s]"
  by (induction s) auto

lemma split_on_first: "sep \<notin> set a \<Longrightarrow> split_on sep (a @ sep # b) = a # split_on sep b"
  by (induction a) auto

lemma digit_chars: "is_digit c \<Longrightarrow> c \<noteq> CHR ''b'' \<and> c \<noteq> CHR ''-''"
  by (auto simp: is_digit_def)

lemma show_nat_plain: "CHR ''b'' \<notin> set (show_nat n)" "CHR ''-'' \<notin> set (show_nat n)"
  using show_nat_digits[of n] digit_chars by blast+

lemma parse_range_header:
  assumes "0 \<le> s" and "0 \<le> e" and "s \<le> PY_SSIZE_T_MAX" and "e \<le> PY_SSIZE_T_MAX"
  shows "parse_range (range_header s e) l = Inr (s, e)"
proof -
  define a where "a = show_nat (nat s)"
  define b where "b = show_nat (nat e)"
  have h: "range_header s e = ''bytes='' @ a @ CHR ''-'' # b"
    using assms by (simp add: range_header_def show_int_def a_def b_def)
  have nb: "CHR ''b'' \<notin> set (a @ CHR ''-'' # b)"
    using show_nat_plain(1) by (simp add: a_def b_def)
  have "replace_bytes_eq (range_header s e) = replace_bytes_eq (a @ CHR ''-'' # b)"
    unfolding h by simp
  also have "\<dots> = a @ CHR ''-'' # b" by (rule replace_bytes_eq_id[OF nb])
  finally have r: "replace_bytes_eq (range_header s e) = a @ CHR ''-'' # b" .
  have sp: "split_on CHR ''-'' (a @ CHR ''-'' # b) = [a, b]"
    using show_nat_plain(2) by (simp add: split_on_first split_on_none a_def b_def)
  have ne: "a \<noteq> []" "b \<noteq> []" using show_nat_last by (simp_all add: a_def b_def)
  have pa: "py_int a = Some s" "py_int b = Some e"
    using assms(1,2) py_int_show_nat[OF offset_digits[OF assms(3)]]
      py_int_show_nat[OF offset_digits[OF assms(4)]]
    by (simp_all add: a_def b_def)
  show ?thesis unfolding parse_range_def r sp using ne pa by simp
qed

lemma range_header_nonempty: "range_header s e \<noteq> []"
  by (simp add: range_header_def)

text \<open>A start of more than 4300 digits is refused, whatever the archive.\<close>

lemma py_int_too_long:
  assumes "\<forall>c \<in> set ds. is_digit c" and "int_max_str_digits < int (length ds)"
  shows "py_int ds = None"
proof -
  have ne: "ds \<noteq> []" using assms(2) by (auto simp: int_max_str_digits_def)
  then obtain c r where cr: "ds = c # r" by (cases ds) auto
  have dg: "is_digit (hd ds)" "is_digit (last ds)" using assms(1) ne by auto
  have st: "strip ds = c # r"
    using strip_unspaced[OF ne] dg cr by (auto simp: is_digit_def is_space_def)
  have "is_digit c" using dg(1) cr by simp
  then have sg: "c \<noteq> CHR ''-''" "c \<noteq> CHR ''+''" by (auto simp: is_digit_def)
  have "filter is_digit ds = ds" using assms(1) by simp
  then have "unsigned_int (c # r) = None"
    using assms(2) unfolding cr unsigned_int_def by simp
  then show ?thesis unfolding py_int_def st using sg by simp
qed

lemma long_start_refused:
  assumes "zip_entries w DATABASE_PATHS = Inr es"
    and "\<forall>c \<in> set ds. is_digit c" and "int_max_str_digits < int (length ds)"
  shows "fst (backup_database E cs (Some (''bytes='' @ ds @ ''-'')) w)
     = Json_error (Msg ''Invalid range header'') 400"
proof -
  have nb: "CHR ''b'' \<notin> set (ds @ ''-'')" "CHR ''-'' \<notin> set ds"
    using assms(2) by (auto simp: is_digit_def)
  have ne: "ds \<noteq> []" using assms(3) by (auto simp: int_max_str_digits_def)
  have "replace_bytes_eq (''bytes='' @ ds @ ''-'') = replace_bytes_eq (ds @ ''-'')" by simp
  also have "\<dots> = ds @ ''-''" by (rule replace_bytes_eq_id[OF nb(1)])
  finally have r: "replace_bytes_eq (''bytes='' @ ds @ ''-'') = ds @ ''-''" .
  have sp: "split_on CHR ''-'' (ds @ ''-'') = [ds, []]"
    using split_on_first[OF nb(2), of "[]"] by simp
  have "parse_range (''bytes='' @ ds @ ''-'') l = Inl (ValueError ds)" for l
    unfolding parse_range_def r sp using ne py_int_too_long[OF assms(2,3)] by simp
  then show ?thesis
    unfolding backup_database_def
    using zip_entries_all_exist[OF assms(1)] assms(1) by (simp add: Let_def)
qed

lemma backup_database_served:
  assumes "zip_entries w DATABASE_PATHS = Inr es" and "archive = zip_write E es"
    and "backup_filename = ''books_db_backup_'' @ timestamp E @ ''.zip''"
    and "backup_path = path_join ''temp_backups'' backup_filename"
    and "w1 = write_file backup_path archive w"
  shows "backup_database E cs None w =
          serve w1 backup_path backup_filename (md5_hexdigest E archive) (int (length archive))
            (requested_chunk_size cs) False 0 (int (length archive) - 1)"
    and "h \<noteq> [] \<Longrightarrow> parse_range h (int (length archive)) = Inr (start, end) \<Longrightarrow>
          backup_database E cs (Some h) w =
            serve w1 backup_path backup_filename (md5_hexdigest E archive) (int (length archive))
              (requested_chunk_size cs) True start end"
proof -
  show "backup_database E cs None w =
          serve w1 backup_path backup_filename (md5_hexdigest E archive) (int (length archive))
            (requested_chunk_size cs) False 0 (int (length archive) - 1)"
    unfolding backup_database_def
    using assms zip_entries_all_exist[OF assms(1)]
    by (simp add: Let_def)
  show "backup_database E cs (Some h) w =
            serve w1 backup_path backup_filename (md5_hexdigest E archive) (int (length archive))
              (requested_chunk_size cs) True start end"
    if "h \<noteq> []" "parse_range h (int (length archive)) = Inr (start, end)"
    unfolding backup_database_def
    using assms that zip_entries_all_exist[OF assms(1)]
    by (simp add: Let_def)
qed

text \<open>
  C8, as amended. All database files exist, so that every request builds the archive, of
  length \<open>L\<close>, a file that \<^verbatim>\<open>read\<close> can return in one piece. \<open>rs\<close> lists a finite set of
  ranges in offset order; they are in bounds, do not overlap and cover \<open>[0, L)\<close>. Each
  range is requested with the header \<^verbatim>\<open>Range: bytes=start-end\<close>. Every request, the
  full download too, streams with a block size of at least one byte: the default of
  1 MiB, or its own \<^verbatim>\<open>chunk_size\<close>. Then the bytes streamed for the range requests,
  concatenated in that order, are the bytes streamed by one full download, and they are
  the archive.
\<close>

theorem range_requests_concat_full:
  assumes ze: "zip_entries w DATABASE_PATHS = Inr es" and ar: "archive = zip_write E es"
    and size: "L = int (length archive)"
    and dist: "distinct rs" and ord: "sorted (map fst rs)"
    and disj: "pairwise (\<lambda>(s, e) (s', e'). {s..e} \<inter> {s'..e'} = {}) (set rs)"
    and inb: "\<forall>(s, e) \<in> set rs. 0 \<le> s \<and> s \<le> e \<and> e < L"
    and cover: "(\<Union>(s, e) \<in> set rs. {s..e}) = {0..<L}"
    and cs: "\<forall>r \<in> set rs. 1 \<le> requested_chunk_size (chunk_size_arg r)"
    and c0: "1 \<le> requested_chunk_size cs0"
    and fits: "L \<le> PY_SSIZE_T_MAX - 33"
  shows "concat (map (\<lambda>(s, e). streamed (fst (backup_database E (chunk_size_arg (s, e))
                                               (Some (range_header s e)) w))) rs)
       = streamed (fst (backup_database E cs0 None w))
     \<and> streamed (fst (backup_database E cs0 None w)) = archive"
proof -
  define backup_filename where "backup_filename = ''books_db_backup_'' @ timestamp E @ ''.zip''"
  define backup_path where "backup_path = path_join ''temp_backups'' backup_filename"
  define w1 where "w1 = write_file backup_path archive w"
  note served = backup_database_served[OF ze ar backup_filename_def backup_path_def w1_def]
  have f1: "files w1 backup_path = Some archive" by (simp add: w1_def write_file_def)
  have each: "map (\<lambda>(s, e). streamed (fst (backup_database E (chunk_size_arg (s, e))
                                               (Some (range_header s e)) w))) rs
     = map (\<lambda>(s, e). streamed (fst (serve w1 backup_path backup_filename (md5_hexdigest E archive) L
                         (requested_chunk_size (chunk_size_arg (s, e))) True s e))) rs"
  proof (rule map_cong[OF refl])
    fix r assume r: "r \<in> set rs"
    obtain s e where se: "r = (s, e)" by (cases r)
    have "0 \<le> s" "0 \<le> e" "s \<le> PY_SSIZE_T_MAX" "e \<le> PY_SSIZE_T_MAX"
      using inb r se fits by auto
    then have "parse_range (range_header s e) (int (length archive)) = Inr (s, e)"
      by (rule parse_range_header)
    from served(2)[OF range_header_nonempty this]
    show "(case r of (s, e) \<Rightarrow> streamed (fst (backup_database E (chunk_size_arg (s, e))
                                               (Some (range_header s e)) w)))
       = (case r of (s, e) \<Rightarrow> streamed (fst (serve w1 backup_path backup_filename
                         (md5_hexdigest E archive) L
                         (requested_chunk_size (chunk_size_arg (s, e))) True s e)))"
      unfolding se size by simp
  qed
  have full: "backup_database E cs0 None w =
          serve w1 backup_path backup_filename (md5_hexdigest E archive) L
            (requested_chunk_size cs0) False 0 (L - 1)"
    unfolding size by (rule served(1))
  have cs': "\<forall>r \<in> set rs. 1 \<le> (\<lambda>r. requested_chunk_size (chunk_size_arg r)) r" using cs by simp
  from windows_concat_full[OF f1 size dist ord disj inb cover cs' c0 fits,
      of backup_filename "md5_hexdigest E archive"]
  show ?thesis unfolding each full by metis
qed

theorem range_requests_concat_full_witness:
  "concat (map (\<lambda>(s, e). streamed (fst (backup_database toy_env
                                          ((\<lambda>r. if fst r = 0 then None else Some ''7'') (s, e))
                                          (Some (range_header s e)) toy_world)))
             [(0, 9), (10, 39)])
       = streamed (fst (backup_database toy_env (Some ''16'') None toy_world))
   \<and> streamed (fst (backup_database toy_env (Some ''16'') None toy_world))
       = ''PKbooks_data.db:AAAA|books_static.db:BB|''"
proof -
  have size: "40 = int (length ''PKbooks_data.db:AAAA|books_static.db:BB|'')" by simp
  have dist: "distinct [(0, 9), (10, 39 :: int) :: int \<times> int]" by simp
  have ord: "sorted (map fst [(0, 9), (10, 39 :: int) :: int \<times> int])" by simp
  have disj: "pairwise (\<lambda>(s, e) (s', e'). {s..e} \<inter> {s'..e'} = {})
                (set [(0, 9), (10, 39 :: int) :: int \<times> int])"
    by (simp add: pairwise_insert)
  have inb: "\<forall>(s, e) \<in> set [(0, 9), (10, 39 :: int) :: int \<times> int]. 0 \<le> s \<and> s \<le> e \<and> e < 40"
    by simp
  have cover: "(\<Union>(s, e) \<in> set [(0, 9), (10, 39 :: int) :: int \<times> int]. {s..e}) = {0..<40}"
    by auto
  have k: "requested_chunk_size (Some ''7'') = 7" "requested_chunk_size (Some ''16'') = 16"
    "requested_chunk_size None = 1048576"
    by code_simp+
  have cs: "\<forall>r \<in> set [(0, 9), (10, 39 :: int) :: int \<times> int].
      1 \<le> requested_chunk_size ((\<lambda>r. if fst r = 0 then None else Some ''7'') r)"
    by (simp add: k)
  have c0: "1 \<le> requested_chunk_size (Some ''16'')" by (simp add: k)
  have fits: "(40::int) \<le> PY_SSIZE_T_MAX - 33" by (simp add: PY_SSIZE_T_MAX_def)
  show ?thesis
    by (rule range_requests_concat_full
          [OF toy_zip_entries toy_archive size dist ord disj inb cover cs c0 fits])
qed

text \<open>With \<^verbatim>\<open>chunk_size=-1\<close> each range request streams the archive from its start to the
  end of the file: the two pieces have 70 bytes, the full download has 40.\<close>

theorem read_to_end_ranges_counterexample:
  "concat (map (\<lambda>(s, e). streamed (fst (backup_database toy_env (Some ''-1'')
                                          (Some (range_header s e)) toy_world)))
             [(0, 9), (10, 39)])
       = ''PKbooks_data.db:AAAA|books_static.db:BB|ta.db:AAAA|books_static.db:BB|''
   \<and> streamed (fst (backup_database toy_env (Some ''-1'') None toy_world))
       = ''PKbooks_data.db:AAAA|books_static.db:BB|''
   \<and> streamed (fst (backup_database toy_env None None toy_world))
       = ''PKbooks_data.db:AAAA|books_static.db:BB|''"
  by code_simp

end
